(* ===== verification/Prelude.thy ===== *)
theory Prelude
  imports Main "HOL-Library.Word"
begin

text \<open>
  Shared vocabulary of the AStar development: the byte type of the wire, the Python
  values and exceptions that cross the API of \<open>src/a_star.py\<close>, the outcome type of a
  Python call that may raise (an exception does not roll back the attribute writes done
  before it, so both outcomes carry the object's state), the collections of rewrite rules
  the component theories fill, and the generic lemmas on words and lists they share.
\<close>

section \<open>Types shared by all components\<close>

type_synonym byte = "8 word"

text \<open>
  Python values as the module passes them: the arguments of \<open>struct.pack\<close>, the results
  of \<open>struct.unpack\<close> (a tuple) and the sentinels of the read endpoints (lists).
  \<open>PNone\<close> is the \<open>None\<close> returned by the write endpoints.
\<close>

datatype pyval =
    PNone
  | PBool bool
  | PInt int
  | PBytes "byte list"
  | PTuple "pyval list"
  | PList "pyval list"

text \<open>
  The exceptions that can leave a method of \<open>AStar\<close>: \<open>struct.error\<close> from
  \<open>struct.pack\<close>/\<open>struct.unpack\<close>, \<open>UnicodeEncodeError\<close> from \<open>str.encode("ascii")\<close>,
  and the \<open>OSError\<close> of an smbus call that is not inside a \<open>try\<close>.
\<close>

datatype exc = StructError | UnicodeEncodeError | IOError

datatype ('a, 's) outcome = Return 'a 's | Raise exc 's

primrec out_state :: "('a, 's) outcome \<Rightarrow> 's" where
  "out_state (Return v s) = s"
| "out_state (Raise e s) = s"

primrec returned :: "('a, 's) outcome \<Rightarrow> bool" where
  "returned (Return v s) = True"
| "returned (Raise e s) = False"

section \<open>Rule collections\<close>

named_theorems wire_simps "evaluation rules of the wire encoding (struct formats, byte codecs)"
named_theorems engine_simps "evaluation rules of the transaction engine and the endpoints"

section \<open>Generic lemmas on words\<close>

text \<open>A 16-bit word is the concatenation of its high and its low byte, and the two bytes
  are recovered from the concatenation: the facts behind every little-endian round trip.\<close>

lemma word_cat_hi_lo_16 [simp]:
  "(word_cat (ucast (drop_bit 8 w) :: byte) (ucast w :: byte) :: 16 word) = w"
  by (rule bit_word_eqI) (auto simp: bit_simps)

lemma ucast_word_cat_lo_16 [simp]:
  "(ucast (word_cat (hi :: byte) (lo :: byte) :: 16 word) :: byte) = lo"
  by (rule bit_word_eqI) (auto simp: bit_simps)

lemma ucast_drop_bit_word_cat_hi_16 [simp]:
  "(ucast (drop_bit 8 (word_cat (hi :: byte) (lo :: byte) :: 16 word)) :: byte) = hi"
  by (rule bit_word_eqI) (auto simp: bit_simps)

text \<open>The arithmetic form of the concatenation, which evaluates on numerals.\<close>

lemma word_cat_bytes_16 [wire_simps]:
  "(word_cat (hi :: byte) (lo :: byte) :: 16 word) = ucast hi * 256 + ucast lo"
  by (simp add: word_cat_eq push_bit_eq_mult)

lemma sint_word_of_int_16:
  "- 32768 \<le> x \<Longrightarrow> x < 32768 \<Longrightarrow> sint (word_of_int x :: 16 word) = x"
  by (simp add: sint_sbintrunc' signed_take_bit_int_eq_self)

lemma uint_word_of_int_16:
  "0 \<le> x \<Longrightarrow> x < 65536 \<Longrightarrow> uint (word_of_int x :: 16 word) = x"
  by (simp add: uint_word_of_int_eq take_bit_int_eq_self)

lemma uint_word_of_int_8:
  "0 \<le> x \<Longrightarrow> x < 256 \<Longrightarrow> uint (word_of_int x :: byte) = x"
  by (simp add: uint_word_of_int_eq take_bit_int_eq_self)

lemma sint_16_bounds:
  "- 32768 \<le> sint (w :: 16 word) \<and> sint w < 32768"
  using sint_ge [of w] sint_lt [of w] by simp

lemma uint_16_bounds:
  "0 \<le> uint (w :: 16 word) \<and> uint w < 65536"
  using uint_bounded [of w] by simp

section \<open>Generic lemmas on lists\<close>

lemma take_append_length [simp]:
  "length xs = n \<Longrightarrow> take n (xs @ ys) = xs"
  by simp

lemma drop_append_length [simp]:
  "length xs = n \<Longrightarrow> drop n (xs @ ys) = ys"
  by simp

end
