(* ===== verification/Struct.thy ===== *)
theory Struct
  imports Prelude
begin

text \<open>
  The wire codec: Python's \<open>struct.pack\<close>, \<open>struct.unpack\<close> and \<open>struct.calcsize\<close>
  in native mode (no byte-order prefix, the only mode \<open>src/a_star.py\<close> uses) on a
  little-endian host, for the format codes \<open>x c ? B h H s\<close>. The library is not part
  of the repository: it is modelled from the wire contract of the spec (section 6) and
  CPython's documented behaviour. A format string is parsed into a list of items; native
  alignment inserts pad items before a 2-byte field at an odd offset. \<open>pack\<close> raises
  \<open>struct.error\<close> on a wrong number of values, on a value of the wrong type and on an
  integer out of the field's range; \<open>unpack\<close> raises it when the buffer's length is
  not the format's size.
\<close>

section \<open>Format items and their parser\<close>

datatype fmt = FmtX | FmtC | FmtBool | FmtB | Fmth | FmtH | FmtS nat

primrec fmt_size :: "fmt \<Rightarrow> nat" where
  "fmt_size FmtX = 1"
| "fmt_size FmtC = 1"
| "fmt_size FmtBool = 1"
| "fmt_size FmtB = 1"
| "fmt_size Fmth = 2"
| "fmt_size FmtH = 2"
| "fmt_size (FmtS n) = n"

primrec fmt_align :: "fmt \<Rightarrow> nat" where
  "fmt_align FmtX = 1"
| "fmt_align FmtC = 1"
| "fmt_align FmtBool = 1"
| "fmt_align FmtB = 1"
| "fmt_align Fmth = 2"
| "fmt_align FmtH = 2"
| "fmt_align (FmtS n) = 1"

definition fmt_code :: "char \<Rightarrow> nat \<Rightarrow> fmt list option" where
  "fmt_code c n =
     (if c = CHR ''x'' then Some (replicate n FmtX)
      else if c = CHR ''c'' then Some (replicate n FmtC)
      else if c = CHR ''?'' then Some (replicate n FmtBool)
      else if c = CHR ''B'' then Some (replicate n FmtB)
      else if c = CHR ''h'' then Some (replicate n Fmth)
      else if c = CHR ''H'' then Some (replicate n FmtH)
      else if c = CHR ''s'' then Some [FmtS n]
      else None)"

definition is_digit :: "char \<Rightarrow> bool" where
  "is_digit c \<longleftrightarrow> 48 \<le> (of_char c :: nat) \<and> (of_char c :: nat) \<le> 57"

definition is_space :: "char \<Rightarrow> bool" where
  "is_space c \<longleftrightarrow> of_char c \<in> {32, 9, 10, 11, 12, 13 :: nat}"

text \<open>
  \<open>parse_items off cnt cs\<close>: \<open>off\<close> is the byte offset reached, \<open>cnt\<close> the repeat
  count read so far. As in CPython's \<open>prepare_s\<close>, whitespace is skipped between items,
  a count must be followed directly by a code, and a count at the end is an error.
\<close>

fun parse_items :: "nat \<Rightarrow> nat option \<Rightarrow> char list \<Rightarrow> fmt list option" where
  "parse_items off None [] = Some []"
| "parse_items off (Some n) [] = None"
| "parse_items off cnt (c # cs) =
     (if is_digit c
      then parse_items off (Some (10 * (case cnt of None \<Rightarrow> 0 | Some n \<Rightarrow> n)
                                   + (of_char c - 48))) cs
      else if is_space c \<and> cnt = None then parse_items off None cs
      else case fmt_code c (case cnt of None \<Rightarrow> 1 | Some n \<Rightarrow> n) of
        None \<Rightarrow> None
      | Some its \<Rightarrow>
          (let a = (case its of [] \<Rightarrow> 1 | i # _ \<Rightarrow> fmt_align i);
               pad = replicate ((a - off mod a) mod a) FmtX;
               here = pad @ its
           in map_option ((@) here) (parse_items (off + sum_list (map fmt_size here)) None cs)))"

definition parse_format :: "string \<Rightarrow> fmt list option" where
  "parse_format f = parse_items 0 None f"

definition calcsize :: "fmt list \<Rightarrow> nat" where
  "calcsize fs = sum_list (map fmt_size fs)"

section \<open>Little-endian 16-bit fields\<close>

definition le16_bytes :: "16 word \<Rightarrow> byte list" where
  "le16_bytes w = [ucast w, ucast (drop_bit 8 w)]"

fun le16_word :: "byte list \<Rightarrow> 16 word" where
  "le16_word [lo, hi] = word_cat hi lo"
| "le16_word bs = 0"

section \<open>pack\<close>

text \<open>Python's \<open>__index__\<close> on the values the module can pass: \<open>bool\<close> is an \<open>int\<close>.\<close>

fun py_index :: "pyval \<Rightarrow> int option" where
  "py_index (PInt i) = Some i"
| "py_index (PBool b) = Some (if b then 1 else 0)"
| "py_index v = None"

fun py_truthy :: "pyval \<Rightarrow> bool" where
  "py_truthy PNone = False"
| "py_truthy (PBool b) = b"
| "py_truthy (PInt i) = (i \<noteq> 0)"
| "py_truthy (PBytes bs) = (bs \<noteq> [])"
| "py_truthy (PTuple vs) = (vs \<noteq> [])"
| "py_truthy (PList vs) = (vs \<noteq> [])"

definition int_field :: "int \<Rightarrow> int \<Rightarrow> (int \<Rightarrow> byte list) \<Rightarrow> pyval \<Rightarrow> exc + byte list" where
  "int_field lo hi enc v =
     (case py_index v of
        None \<Rightarrow> Inl StructError
      | Some i \<Rightarrow> if lo \<le> i \<and> i \<le> hi then Inr (enc i) else Inl StructError)"

fun pack_one :: "fmt \<Rightarrow> pyval \<Rightarrow> exc + byte list" where
  "pack_one FmtX v = Inl StructError"
| "pack_one FmtC (PBytes bs) = (if length bs = 1 then Inr bs else Inl StructError)"
| "pack_one FmtC v = Inl StructError"
| "pack_one FmtBool v = Inr [if py_truthy v then 1 else 0]"
| "pack_one FmtB v = int_field 0 255 (\<lambda>i. [word_of_int i]) v"
| "pack_one Fmth v = int_field (- 32768) 32767 (\<lambda>i. le16_bytes (word_of_int i)) v"
| "pack_one FmtH v = int_field 0 65535 (\<lambda>i. le16_bytes (word_of_int i)) v"
| "pack_one (FmtS n) (PBytes bs) = Inr (take n bs @ replicate (n - length bs) 0)"
| "pack_one (FmtS n) v = Inl StructError"

text \<open>Pad items take no value; every other item takes the next one.\<close>

fun pack_items :: "fmt list \<Rightarrow> pyval list \<Rightarrow> exc + byte list" where
  "pack_items [] vs = (if vs = [] then Inr [] else Inl StructError)"
| "pack_items (f # fs) vs =
     (if f = FmtX
      then (case pack_items fs vs of Inl e \<Rightarrow> Inl e | Inr bs \<Rightarrow> Inr (0 # bs))
      else case vs of
        [] \<Rightarrow> Inl StructError
      | v # vs' \<Rightarrow>
          (case pack_one f v of
             Inl e \<Rightarrow> Inl e
           | Inr b \<Rightarrow> (case pack_items fs vs' of Inl e \<Rightarrow> Inl e | Inr bs \<Rightarrow> Inr (b @ bs))))"

definition struct_pack :: "string \<Rightarrow> pyval list \<Rightarrow> exc + byte list" where
  "struct_pack f vs =
     (case parse_format f of None \<Rightarrow> Inl StructError | Some fs \<Rightarrow> pack_items fs vs)"

section \<open>unpack\<close>

fun unpack_one :: "fmt \<Rightarrow> byte list \<Rightarrow> pyval" where
  "unpack_one FmtC bs = PBytes bs"
| "unpack_one FmtBool bs = PBool (hd bs \<noteq> 0)"
| "unpack_one FmtB bs = PInt (uint (hd bs))"
| "unpack_one Fmth bs = PInt (sint (le16_word bs))"
| "unpack_one FmtH bs = PInt (uint (le16_word bs))"
| "unpack_one (FmtS n) bs = PBytes bs"
| "unpack_one FmtX bs = PNone"

fun unpack_items :: "fmt list \<Rightarrow> byte list \<Rightarrow> pyval list" where
  "unpack_items [] bs = []"
| "unpack_items (f # fs) bs =
     (if f = FmtX then unpack_items fs (drop 1 bs)
      else unpack_one f (take (fmt_size f) bs) # unpack_items fs (drop (fmt_size f) bs))"

definition struct_unpack :: "string \<Rightarrow> byte list \<Rightarrow> exc + pyval list" where
  "struct_unpack f bs =
     (case parse_format f of
        None \<Rightarrow> Inl StructError
      | Some fs \<Rightarrow> if length bs = calcsize fs then Inr (unpack_items fs bs) else Inl StructError)"

section \<open>Values a format accepts and values it produces\<close>

text \<open>\<open>accepts f v\<close>: \<open>pack\<close> takes \<open>v\<close> for item \<open>f\<close> without raising.
  \<open>fits f v\<close>: \<open>v\<close> is a value \<open>unpack\<close> can produce for \<open>f\<close> (the field's type and
  range). \<open>value_items\<close> drops the pad items, which take and give no value.\<close>

fun fits :: "fmt \<Rightarrow> pyval \<Rightarrow> bool" where
  "fits FmtC (PBytes bs) = (length bs = 1)"
| "fits FmtBool (PBool b) = True"
| "fits FmtB (PInt i) = (0 \<le> i \<and> i \<le> 255)"
| "fits Fmth (PInt i) = (- 32768 \<le> i \<and> i \<le> 32767)"
| "fits FmtH (PInt i) = (0 \<le> i \<and> i \<le> 65535)"
| "fits (FmtS n) (PBytes bs) = (length bs = n)"
| "fits f v = False"

fun accepts :: "fmt \<Rightarrow> pyval \<Rightarrow> bool" where
  "accepts FmtX v = False"
| "accepts FmtC v = (case v of PBytes bs \<Rightarrow> length bs = 1 | _ \<Rightarrow> False)"
| "accepts FmtBool v = True"
| "accepts FmtB v = (case py_index v of Some i \<Rightarrow> 0 \<le> i \<and> i \<le> 255 | None \<Rightarrow> False)"
| "accepts Fmth v = (case py_index v of Some i \<Rightarrow> - 32768 \<le> i \<and> i \<le> 32767 | None \<Rightarrow> False)"
| "accepts FmtH v = (case py_index v of Some i \<Rightarrow> 0 \<le> i \<and> i \<le> 65535 | None \<Rightarrow> False)"
| "accepts (FmtS n) v = (case v of PBytes bs \<Rightarrow> True | _ \<Rightarrow> False)"

definition value_items :: "fmt list \<Rightarrow> fmt list" where
  "value_items fs = filter (\<lambda>f. f \<noteq> FmtX) fs"

lemmas format_eval [wire_simps] =
  parse_format_def fmt_code_def is_digit_def is_space_def calcsize_def value_items_def

section \<open>Lemmas: lengths, errors, round trips\<close>

lemma le16_word_bytes [simp]: "le16_word (le16_bytes w) = w"
  by (simp add: le16_bytes_def)

lemma le16_bytes_word: "length bs = 2 \<Longrightarrow> le16_bytes (le16_word bs) = bs"
  by (cases bs rule: le16_word.cases) (auto simp: le16_bytes_def)

lemma word_of_int_sint_16 [simp]: "(word_of_int (sint w) :: 16 word) = w"
  by simp

lemma pack_one_length:
  "pack_one f v = Inr b \<Longrightarrow> length b = fmt_size f"
  by (cases "(f, v)" rule: pack_one.cases)
     (auto simp: int_field_def le16_bytes_def split: option.splits if_splits)

lemma pack_one_exc:
  "pack_one f v = Inl e \<Longrightarrow> e = StructError"
  by (cases "(f, v)" rule: pack_one.cases)
     (auto simp: int_field_def split: option.splits if_splits)

lemma pack_one_ok_iff:
  "(\<exists>b. pack_one f v = Inr b) \<longleftrightarrow> accepts f v"
  by (cases "(f, v)" rule: pack_one.cases)
     (auto simp: int_field_def split: option.splits if_splits)

lemma pack_one_Inl_not_accepts:
  "pack_one f v = Inl e \<Longrightarrow> \<not> accepts f v"
  using pack_one_ok_iff [of f v] by auto

lemma pack_items_length:
  "pack_items fs vs = Inr bs \<Longrightarrow> length bs = calcsize fs"
proof (induction fs arbitrary: vs bs)
  case Nil
  then show ?case by (simp add: calcsize_def split: if_splits)
next
  case (Cons f fs)
  then show ?case
    by (auto simp: calcsize_def dest: pack_one_length split: if_splits sum.splits list.splits)
qed

lemma pack_items_exc:
  "pack_items fs vs = Inl e \<Longrightarrow> e = StructError"
proof (induction fs arbitrary: vs)
  case (Cons f fs)
  then show ?case
    by (auto simp del: pack_one.simps dest: pack_one_exc split: if_splits sum.splits list.splits)
qed (simp split: if_splits)

lemma pack_items_ok_iff:
  "(\<exists>bs. pack_items fs vs = Inr bs) \<longleftrightarrow> list_all2 accepts (value_items fs) vs"
proof (induction fs arbitrary: vs)
  case Nil
  then show ?case by (simp add: value_items_def)
next
  case (Cons f fs)
  show ?case
  proof (cases "f = FmtX")
    case True
    with Cons.IH [of vs] show ?thesis by (auto simp: value_items_def split: sum.splits)
  next
    case False
    show ?thesis
    proof (cases vs)
      case Nil
      with False show ?thesis by (simp add: value_items_def)
    next
      case (Cons v vs')
      have "(\<exists>bs. pack_items (f # fs) vs = Inr bs) \<longleftrightarrow>
            (\<exists>b. pack_one f v = Inr b) \<and> (\<exists>bs. pack_items fs vs' = Inr bs)"
        using False Cons by (auto simp del: pack_one.simps split: sum.splits)
      with False Cons Cons.IH [of vs'] pack_one_ok_iff [of f v] show ?thesis
        by (simp add: value_items_def)
    qed
  qed
qed

lemma unpack_pack_one:
  "fits f v \<Longrightarrow> \<exists>b. pack_one f v = Inr b \<and> unpack_one f b = v"
  by (cases "(f, v)" rule: fits.cases)
     (auto simp: int_field_def uint_word_of_int_8 uint_word_of_int_16 sint_word_of_int_16)

lemma unpack_items_pack:
  "list_all2 fits (value_items fs) vs \<Longrightarrow> \<exists>bs. pack_items fs vs = Inr bs \<and> unpack_items fs bs = vs"
proof (induction fs arbitrary: vs)
  case Nil
  then show ?case by (simp add: value_items_def)
next
  case (Cons f fs)
  show ?case
  proof (cases "f = FmtX")
    case True
    with Cons.prems obtain bs where "pack_items fs vs = Inr bs" and "unpack_items fs bs = vs"
      using Cons.IH by (auto simp: value_items_def)
    with True show ?thesis by simp
  next
    case False
    with Cons.prems obtain v vs' where vs: "vs = v # vs'" and fv: "fits f v"
      and rest: "list_all2 fits (value_items fs) vs'"
      by (auto simp: value_items_def list_all2_Cons1)
    from unpack_pack_one [OF fv] obtain b where pb: "pack_one f v = Inr b" and ub: "unpack_one f b = v"
      by blast
    from Cons.IH [OF rest] obtain bs where pbs: "pack_items fs vs' = Inr bs" and ubs: "unpack_items fs bs = vs'"
      by blast
    have lb: "length b = fmt_size f" using pb by (rule pack_one_length)
    show ?thesis
      using False vs pb ub pbs ubs lb by (simp del: pack_one.simps unpack_one.simps)
  qed
qed

lemma unpack_one_fits:
  "f \<noteq> FmtX \<Longrightarrow> length b = fmt_size f \<Longrightarrow> fits f (unpack_one f b)"
proof (cases f)
  case FmtB
  moreover assume "length b = fmt_size f"
  ultimately show ?thesis using uint_bounded [of "hd b"] by simp
next
  case Fmth
  then show ?thesis using sint_16_bounds [of "le16_word b"] by simp
next
  case FmtH
  then show ?thesis using uint_16_bounds [of "le16_word b"] by simp
qed simp_all

lemma unpack_items_fits:
  "length bs = calcsize fs \<Longrightarrow> list_all2 fits (value_items fs) (unpack_items fs bs)"
proof (induction fs arbitrary: bs)
  case Nil
  then show ?case by (simp add: value_items_def)
next
  case (Cons f fs)
  then show ?case
    by (auto simp: value_items_def calcsize_def unpack_one_fits simp del: unpack_one.simps)
qed

lemma pack_unpack_one:
  assumes "f \<noteq> FmtX" and "f \<noteq> FmtBool" and len: "length b = fmt_size f"
  shows "pack_one f (unpack_one f b) = Inr b"
proof (cases f)
  case FmtB
  with len show ?thesis
    using uint_bounded [of "hd b"] by (cases b) (auto simp: int_field_def word_of_int_uint)
next
  case Fmth
  with len show ?thesis
    using sint_16_bounds [of "le16_word b"] by (auto simp: int_field_def le16_bytes_word)
next
  case FmtH
  with len show ?thesis
    using uint_16_bounds [of "le16_word b"] by (auto simp: int_field_def le16_bytes_word word_of_int_uint)
qed (use assms in simp_all)

lemma pack_unpack_items:
  "length bs = calcsize fs \<Longrightarrow> FmtX \<notin> set fs \<Longrightarrow> FmtBool \<notin> set fs \<Longrightarrow>
   pack_items fs (unpack_items fs bs) = Inr bs"
proof (induction fs arbitrary: bs)
  case Nil
  then show ?case by (simp add: calcsize_def)
next
  case (Cons f fs)
  then have "pack_one f (unpack_one f (take (fmt_size f) bs)) = Inr (take (fmt_size f) bs)"
    by (intro pack_unpack_one) (auto simp: calcsize_def)
  moreover have "pack_items fs (unpack_items fs (drop (fmt_size f) bs)) = Inr (drop (fmt_size f) bs)"
    using Cons by (intro Cons.IH) (auto simp: calcsize_def)
  moreover have "f \<noteq> FmtX" using Cons.prems by auto
  ultimately show ?case
    by (simp del: pack_one.simps unpack_one.simps)
qed

lemma fits_FmtBool: "fits FmtBool v \<longleftrightarrow> (\<exists>b. v = PBool b)"
  by (cases v) auto

lemma fits_Fmth: "fits Fmth v \<longleftrightarrow> (\<exists>i. v = PInt i \<and> - 32768 \<le> i \<and> i \<le> 32767)"
  by (cases v) auto

lemma fits_FmtH: "fits FmtH v \<longleftrightarrow> (\<exists>i. v = PInt i \<and> 0 \<le> i \<and> i \<le> 65535)"
  by (cases v) auto

section \<open>The codec's contract\<close>

text \<open>
  Round trip. For every format string and every list of values of the format's
  field types and ranges, \<open>pack\<close> succeeds, its result has \<open>calcsize\<close> bytes, and
  \<open>unpack\<close> of that result gives the values back.
\<close>

lemma struct_roundtrip:
  assumes "parse_format f = Some fs" and "list_all2 fits (value_items fs) vs"
  shows "\<exists>bs. struct_pack f vs = Inr bs \<and> length bs = calcsize fs \<and> struct_unpack f bs = Inr vs"
proof -
  from assms(2) obtain bs where p: "pack_items fs vs = Inr bs" and u: "unpack_items fs bs = vs"
    using unpack_items_pack by blast
  from p have "length bs = calcsize fs" by (rule pack_items_length)
  with assms(1) p u show ?thesis by (simp add: struct_pack_def struct_unpack_def)
qed

text \<open>
  Errors of pack. \<open>pack\<close> raises exactly when some value is not accepted by its
  item (or the number of values is wrong), and the only exception it raises is
  \<open>struct.error\<close>.
\<close>

lemma struct_pack_ok_iff:
  assumes "parse_format f = Some fs"
  shows "((\<exists>bs. struct_pack f vs = Inr bs) \<longleftrightarrow> list_all2 accepts (value_items fs) vs) \<and>
         (\<forall>e. struct_pack f vs = Inl e \<longrightarrow> e = StructError)"
  using assms pack_items_ok_iff [of fs vs] pack_items_exc [of fs vs]
  by (simp add: struct_pack_def)

text \<open>
  Byte-level round trip. For a format with no pad and no \<open>?\<close> item (every format
  of the catalogue but \<open>'???'\<close>), packing what \<open>unpack\<close> read gives the bytes back:
  \<open>unpack\<close> loses no information. A \<open>?\<close> field does lose it: every nonzero byte reads as
  \<open>True\<close>.
\<close>

lemma struct_unpack_pack:
  assumes "struct_unpack f bs = Inr vs" and "parse_format f = Some fs"
    and "FmtX \<notin> set fs" and "FmtBool \<notin> set fs"
  shows "struct_pack f vs = Inr bs"
proof -
  from assms(1,2) have "length bs = calcsize fs" and "vs = unpack_items fs bs"
    by (simp_all add: struct_unpack_def split: if_splits)
  with assms(2-4) show ?thesis by (simp add: struct_pack_def pack_unpack_items)
qed

text \<open>
  Bounds of unpack. Every value \<open>unpack\<close> returns has its field's type and
  range: a \<open>B\<close> field is in 0..255, an \<open>H\<close> field in 0..65535, an \<open>h\<close> field in
  -32768..32767, a \<open>?\<close> field a bool, an \<open>s\<close> field bytes of the declared length.
\<close>

lemma struct_unpack_fits:
  assumes "struct_unpack f bs = Inr vs" and "parse_format f = Some fs"
  shows "list_all2 fits (value_items fs) vs"
  using assms unpack_items_fits [of bs fs]
  by (simp add: struct_unpack_def split: if_splits)

end
