(* ===== verification/Bus.thy ===== *)
theory Bus
  imports Prelude
begin

text \<open>
  The bus transport, the external collaborator of \<open>src/a_star.py\<close> (the object
  \<open>smbus.SMBus(1)\<close> held in \<open>self.bus\<close>). Its contract (spec section 6) is the
  interface \<open>smbus\<close>: three calls on a device state of any type \<open>'d\<close>, each of which
  either returns (\<open>Some\<close>) or raises (\<open>None\<close>), and may change the device state either
  way. The engine's lemmas hold for every implementation of the interface.

  One implementation is given: \<open>sim_bus\<close>, a simulated A-Star slave at address 20 with
  the firmware's register buffer \<open>mem\<close>, the register pointer \<open>ptr\<close> that an address
  write sets and every byte read advances, and a fault script \<open>faults\<close> (the \<open>k\<close>-th
  call fails when the \<open>k\<close>-th entry is \<open>True\<close>; calls past the script succeed). A call
  to another address is not acknowledged, and a block write of no byte or of more than
  32 bytes is refused, as the smbus module refuses it. It is modelled from the spec,
  not from code of the repository, and serves the scenarios and the end-to-end lemmas.
\<close>

section \<open>The interface\<close>

record 'd smbus =
  write_byte :: "nat \<Rightarrow> byte \<Rightarrow> 'd \<Rightarrow> unit option \<times> 'd"
  read_byte :: "nat \<Rightarrow> 'd \<Rightarrow> byte option \<times> 'd"
  write_i2c_block_data :: "nat \<Rightarrow> byte \<Rightarrow> byte list \<Rightarrow> 'd \<Rightarrow> unit option \<times> 'd"

section \<open>A simulated A-Star slave\<close>

definition sim_addr :: nat where
  "sim_addr = 20"

record sim =
  mem :: "byte list"
  ptr :: nat
  faults :: "bool list"

definition mem_at :: "byte list \<Rightarrow> nat \<Rightarrow> byte" where
  "mem_at m i = (if i < length m then m ! i else 0)"

fun store :: "nat \<Rightarrow> byte list \<Rightarrow> byte list \<Rightarrow> byte list" where
  "store i [] m = m"
| "store i (b # bs) m = store (Suc i) bs (m[i := b])"

definition sim_fault :: "nat \<Rightarrow> sim \<Rightarrow> bool \<times> sim" where
  "sim_fault dev s =
     (case faults s of
        [] \<Rightarrow> (dev \<noteq> sim_addr, s)
      | f # fs \<Rightarrow> (f \<or> dev \<noteq> sim_addr, s\<lparr>faults := fs\<rparr>))"

definition sim_write_byte :: "nat \<Rightarrow> byte \<Rightarrow> sim \<Rightarrow> unit option \<times> sim" where
  "sim_write_byte dev v s =
     (case sim_fault dev s of
        (True, s1) \<Rightarrow> (None, s1)
      | (False, s1) \<Rightarrow> (Some (), s1\<lparr>ptr := unat v\<rparr>))"

definition sim_read_byte :: "nat \<Rightarrow> sim \<Rightarrow> byte option \<times> sim" where
  "sim_read_byte dev s =
     (case sim_fault dev s of
        (True, s1) \<Rightarrow> (None, s1)
      | (False, s1) \<Rightarrow> (Some (mem_at (mem s1) (ptr s1)), s1\<lparr>ptr := Suc (ptr s1)\<rparr>))"

definition sim_write_block :: "nat \<Rightarrow> byte \<Rightarrow> byte list \<Rightarrow> sim \<Rightarrow> unit option \<times> sim" where
  "sim_write_block dev reg data s =
     (case sim_fault dev s of
        (True, s1) \<Rightarrow> (None, s1)
      | (False, s1) \<Rightarrow>
          if data = [] \<or> 32 < length data then (None, s1)
          else (Some (), s1\<lparr>mem := store (unat reg) data (mem s1), ptr := unat reg + length data\<rparr>))"

text \<open>A fault-free slave whose buffer holds \<open>n\<close> zero bytes.\<close>

definition sim_blank :: "nat \<Rightarrow> sim" where
  "sim_blank n = \<lparr>mem = replicate n 0, ptr = 0, faults = []\<rparr>"

definition sim_bus :: "sim smbus" where
  "sim_bus = \<lparr>write_byte = sim_write_byte, read_byte = sim_read_byte,
              write_i2c_block_data = sim_write_block\<rparr>"

lemmas sim_eval [engine_simps] =
  sim_bus_def sim_addr_def sim_fault_def sim_write_byte_def sim_read_byte_def sim_write_block_def
  mem_at_def sim_blank_def

section \<open>Lemmas on the simulated slave\<close>

lemma length_store [simp]: "length (store i bs m) = length m"
  by (induction bs arbitrary: i m) auto

lemma store_nth_other:
  "j < i \<or> i + length bs \<le> j \<Longrightarrow> store i bs m ! j = m ! j"
  by (induction bs arbitrary: i m) auto

lemma store_nth_in:
  "i \<le> j \<Longrightarrow> j < i + length bs \<Longrightarrow> j < length m \<Longrightarrow> store i bs m ! j = bs ! (j - i)"
proof (induction bs arbitrary: i m)
  case Nil
  then show ?case by simp
next
  case (Cons b bs)
  show ?case
  proof (cases "j = i")
    case True
    then have "store (Suc i) bs (m[i := b]) ! j = m[i := b] ! j"
      by (intro store_nth_other) simp
    with True Cons.prems show ?thesis by simp
  next
    case False
    with Cons.prems show ?thesis by (simp add: Cons.IH nth_Cons')
  qed
qed

text \<open>Reading back what was stored: the slave's buffer is a register file.\<close>

lemma mem_at_store:
  "i + length bs \<le> length m \<Longrightarrow> k < length bs \<Longrightarrow> mem_at (store i bs m) (i + k) = bs ! k"
  by (simp add: mem_at_def store_nth_in)

end
