(* ===== verification/Engine.thy ===== *)
theory Engine
  imports Prelude Struct Bus
begin

text \<open>
  The transaction engine of \<open>src/a_star.py\<close>: the state of an \<open>AStar\<close> object
  (\<open>__init__\<close>, lines 9-12) and its two primitives \<open>read_unpack\<close> (lines 15-46) and
  \<open>write_pack\<close> (lines 50-58), over any bus of the interface \<open>smbus\<close>.

  The record \<open>astar\<close> holds the object's attributes \<open>bus\<close>, \<open>errors\<close> and \<open>error\<close>
  (the code's 0/1 integer flag is a \<open>bool\<close>: it is only ever set to 0 or 1 and only
  tested for truth) and, as a ghost field, \<open>io\<close>: the external calls the object has made,
  in order, with their outcome (bus calls and \<open>time.sleep\<close>). The ghost field is what
  the ordering properties are stated over; no Python attribute corresponds to it.
\<close>

section \<open>State\<close>

text \<open>The events of the log. A sleep is recorded in microseconds.\<close>

datatype io_event =
    EvWriteByte nat byte bool
  | EvSleep nat
  | EvReadByte nat "byte option"
  | EvWriteBlock nat byte "byte list" bool

record 'd astar =
  bus :: 'd
  errors :: nat
  error :: bool
  io :: "io_event list"

text \<open>The A-Star's slave address, the literal \<open>20\<close> of every bus call.\<close>

definition astar_addr :: nat where
  "astar_addr = 20"

definition astar_init :: "'d \<Rightarrow> 'd astar" where
  "astar_init d = \<lparr>bus = d, errors = 0, error = False, io = []\<rparr>"

text \<open>\<open>self.errors+=1; self.error=1\<close>, the body of every handler of the engine.\<close>

definition note_error :: "'d astar \<Rightarrow> 'd astar" where
  "note_error s = s\<lparr>errors := Suc (errors s), error := True\<rparr>"

section \<open>read_unpack\<close>

text \<open>
  The list comprehension \<open>[self.bus.read_byte(20) for _ in range(size)]\<close>: the reads
  happen one after the other, and the first read that raises ends the comprehension
  (the exception leaves it; no later read is made).
\<close>

fun read_bytes :: "'d smbus \<Rightarrow> nat \<Rightarrow> 'd astar \<Rightarrow> byte list option \<times> 'd astar" where
  "read_bytes B 0 s = (Some [], s)"
| "read_bytes B (Suc n) s =
     (case read_byte B astar_addr (bus s) of
        (r, d) \<Rightarrow>
          (let s' = s\<lparr>bus := d, io := io s @ [EvReadByte astar_addr r]\<rparr>
           in case r of
                None \<Rightarrow> (None, s')
              | Some b \<Rightarrow>
                  (case read_bytes B n s' of
                     (None, s'') \<Rightarrow> (None, s'')
                   | (Some bs, s'') \<Rightarrow> (Some (b # bs), s''))))"

text \<open>
  Lines 26-46: reset the flag; the address-select write, whose failure is counted and
  then ignored; the 200 microsecond settling delay, always; the byte reads, whose
  failure is counted and returns \<open>0\<close> at once; otherwise \<open>struct.unpack\<close>, which is in
  the \<open>else\<close> clause, outside the \<open>try\<close>: its \<open>struct.error\<close> propagates.
\<close>

definition read_unpack ::
  "'d smbus \<Rightarrow> byte \<Rightarrow> nat \<Rightarrow> string \<Rightarrow> 'd astar \<Rightarrow> (pyval, 'd astar) outcome" where
  "read_unpack B address nbytes format s =
     (let s0 = s\<lparr>error := False\<rparr>
      in case write_byte B astar_addr address (bus s0) of
           (r, d) \<Rightarrow>
             (let s1 = s0\<lparr>bus := d, io := io s0 @ [EvWriteByte astar_addr address (r \<noteq> None)]\<rparr>;
                  s2 = (if r = None then note_error s1 else s1);
                  s3 = s2\<lparr>io := io s2 @ [EvSleep 200]\<rparr>
              in case read_bytes B nbytes s3 of
                   (None, s4) \<Rightarrow> Return (PInt 0) (note_error s4)
                 | (Some byte_list, s4) \<Rightarrow>
                     (case struct_unpack format byte_list of
                        Inl e \<Rightarrow> Raise e s4
                      | Inr vs \<Rightarrow> Return (PTuple vs) s4)))"

section \<open>write_pack\<close>

text \<open>
  Lines 50-58: \<open>struct.pack\<close> runs first, outside the \<open>try\<close> and before the flag is
  reset, so its \<open>struct.error\<close> propagates with the state untouched; then one block
  write, whose failure is counted. The method returns \<open>None\<close>.
\<close>

definition write_pack ::
  "'d smbus \<Rightarrow> byte \<Rightarrow> string \<Rightarrow> pyval list \<Rightarrow> 'd astar \<Rightarrow> (pyval, 'd astar) outcome" where
  "write_pack B address format data s =
     (case struct_pack format data of
        Inl e \<Rightarrow> Raise e s
      | Inr data_array \<Rightarrow>
          (let s0 = s\<lparr>error := False\<rparr>
           in case write_i2c_block_data B astar_addr address data_array (bus s0) of
                (r, d) \<Rightarrow>
                  (let s1 = s0\<lparr>bus := d,
                         io := io s0 @ [EvWriteBlock astar_addr address data_array (r \<noteq> None)]\<rparr>
                   in Return PNone (if r = None then note_error s1 else s1))))"

section \<open>Failures visible in the log\<close>

text \<open>A failed bus call in the log: a write that raised, a read that raised.\<close>

fun ev_fault :: "io_event \<Rightarrow> bool" where
  "ev_fault (EvWriteByte dev v ok) = (\<not> ok)"
| "ev_fault (EvSleep us) = False"
| "ev_fault (EvReadByte dev r) = (r = None)"
| "ev_fault (EvWriteBlock dev reg bs ok) = (\<not> ok)"

definition io_faults :: "io_event list \<Rightarrow> nat" where
  "io_faults evs = length (filter ev_fault evs)"

abbreviation reads_ok :: "byte list \<Rightarrow> io_event list" where
  "reads_ok bs \<equiv> map (\<lambda>b. EvReadByte astar_addr (Some b)) bs"

text \<open>
  \<open>accounts s s' k\<close>: from \<open>s\<close> to \<open>s'\<close> the log only grew, by events with at most
  \<open>k\<close> failed bus calls; \<open>errors\<close> grew by exactly their number and \<open>error\<close> says
  whether there was one. This is the error-state contract of one transaction.
\<close>

definition accounts :: "'d astar \<Rightarrow> 'd astar \<Rightarrow> nat \<Rightarrow> bool" where
  "accounts s s' k \<longleftrightarrow>
     take (length (io s)) (io s') = io s \<and> length (io s) \<le> length (io s') \<and>
     (let evs = drop (length (io s)) (io s')
      in io_faults evs \<le> k \<and> errors s' = errors s + io_faults evs \<and> error s' = (0 < io_faults evs))"

section \<open>Lemmas: the byte loop and the two primitives, branch by branch\<close>

lemma io_faults_append [simp]: "io_faults (xs @ ys) = io_faults xs + io_faults ys"
  by (simp add: io_faults_def)

lemma io_faults_Cons [simp]: "io_faults (e # evs) = (if ev_fault e then 1 else 0) + io_faults evs"
  by (simp add: io_faults_def)

lemma io_faults_Nil [simp]: "io_faults [] = 0"
  by (simp add: io_faults_def)

lemma io_faults_reads_ok [simp]: "io_faults (reads_ok bs) = 0"
  by (induction bs) auto

lemma read_bytes_log:
  assumes "read_bytes B n s = (r, s')"
  shows "errors s' = errors s \<and> error s' = error s \<and>
    (\<exists>bs. (r = Some bs \<and> length bs = n \<and> io s' = io s @ reads_ok bs) \<or>
          (r = None \<and> length bs < n \<and> io s' = io s @ reads_ok bs @ [EvReadByte astar_addr None]))"
  using assms
proof (induction n arbitrary: s r s')
  case 0
  then show ?case by auto
next
  case (Suc n)
  obtain r0 d where rb: "read_byte B astar_addr (bus s) = (r0, d)" by fastforce
  define s1 where "s1 = s\<lparr>bus := d, io := io s @ [EvReadByte astar_addr r0]\<rparr>"
  show ?case
  proof (cases r0)
    case None
    with Suc.prems rb have "r = None" and "s' = s1" by (simp_all add: s1_def)
    with None show ?thesis by (auto simp: s1_def intro: exI [of _ "[]"])
  next
    case (Some b)
    obtain r1 s2 where rec: "read_bytes B n s1 = (r1, s2)" by fastforce
    from Suc.IH [OF rec] obtain bs where
      fr: "errors s2 = errors s1 \<and> error s2 = error s1"
      and alt: "(r1 = Some bs \<and> length bs = n \<and> io s2 = io s1 @ reads_ok bs) \<or>
           (r1 = None \<and> length bs < n \<and> io s2 = io s1 @ reads_ok bs @ [EvReadByte astar_addr None])"
      by blast
    from Suc.prems rb Some rec have s': "s' = s2" and r: "r = map_option (Cons b) r1"
      by (auto simp: s1_def Let_def split: option.splits)
    from alt show ?thesis
    proof
      assume "r1 = Some bs \<and> length bs = n \<and> io s2 = io s1 @ reads_ok bs"
      with fr s' r Some show ?thesis by (auto simp: s1_def intro!: exI [of _ "b # bs"])
    next
      assume "r1 = None \<and> length bs < n \<and> io s2 = io s1 @ reads_ok bs @ [EvReadByte astar_addr None]"
      with fr s' r Some show ?thesis by (auto simp: s1_def intro!: exI [of _ "b # bs"])
    qed
  qed
qed

lemma read_unpack_log:
  "\<exists>ok bs.
     ok = (fst (write_byte B astar_addr a (bus s)) \<noteq> None) \<and> length bs \<le> n \<and>
     io (out_state (read_unpack B a n f s)) =
       io s @ [EvWriteByte astar_addr a ok, EvSleep 200] @ reads_ok bs @
       (if length bs = n then [] else [EvReadByte astar_addr None]) \<and>
     errors (out_state (read_unpack B a n f s)) =
       errors s + (if ok then 0 else 1) + (if length bs = n then 0 else 1) \<and>
     error (out_state (read_unpack B a n f s)) = (\<not> ok \<or> length bs < n) \<and>
     read_unpack B a n f s =
       (if length bs = n
        then (case struct_unpack f bs of
                Inl e \<Rightarrow> Raise e (out_state (read_unpack B a n f s))
              | Inr vs \<Rightarrow> Return (PTuple vs) (out_state (read_unpack B a n f s)))
        else Return (PInt 0) (out_state (read_unpack B a n f s)))"
proof -
  obtain r d where wb: "write_byte B astar_addr a (bus s) = (r, d)" by fastforce
  define s1 where "s1 = s\<lparr>error := False, bus := d, io := io s @ [EvWriteByte astar_addr a (r \<noteq> None)]\<rparr>"
  define s3 where "s3 = (if r = None then note_error s1 else s1)\<lparr>io := io s1 @ [EvSleep 200]\<rparr>"
  obtain rb s4 where rd: "read_bytes B n s3 = (rb, s4)" by fastforce
  have "read_unpack B a n f s =
     (case read_bytes B n s3 of
        (None, s4) \<Rightarrow> Return (PInt 0) (note_error s4)
      | (Some byte_list, s4) \<Rightarrow> (case struct_unpack f byte_list of
           Inl e \<Rightarrow> Raise e s4 | Inr vs \<Rightarrow> Return (PTuple vs) s4))"
    by (cases "r = None") (simp_all add: read_unpack_def s1_def s3_def Let_def note_error_def wb)
  with rd have ru: "read_unpack B a n f s =
     (case rb of None \<Rightarrow> Return (PInt 0) (note_error s4)
      | Some byte_list \<Rightarrow> (case struct_unpack f byte_list of
           Inl e \<Rightarrow> Raise e s4 | Inr vs \<Rightarrow> Return (PTuple vs) s4))"
    by (simp split: option.splits)
  from read_bytes_log [OF rd] obtain bs where
    fr: "errors s4 = errors s3 \<and> error s4 = error s3"
    and alt: "(rb = Some bs \<and> length bs = n \<and> io s4 = io s3 @ reads_ok bs) \<or>
         (rb = None \<and> length bs < n \<and> io s4 = io s3 @ reads_ok bs @ [EvReadByte astar_addr None])"
    by blast
  have e3: "errors s3 = errors s + (if r = None then 1 else 0)" and f3: "error s3 = (r = None)"
    and i3: "io s3 = io s @ [EvWriteByte astar_addr a (r \<noteq> None), EvSleep 200]"
    by (simp_all add: s3_def s1_def note_error_def)
  from alt show ?thesis
  proof
    assume h: "rb = Some bs \<and> length bs = n \<and> io s4 = io s3 @ reads_ok bs"
    show ?thesis
      by (rule exI [of _ "r \<noteq> None"], rule exI [of _ bs])
         (use h fr e3 f3 i3 wb ru in \<open>auto split: sum.splits\<close>)
  next
    assume h: "rb = None \<and> length bs < n \<and> io s4 = io s3 @ reads_ok bs @ [EvReadByte astar_addr None]"
    show ?thesis
      by (rule exI [of _ "r \<noteq> None"], rule exI [of _ bs])
         (use h fr e3 f3 i3 wb ru in \<open>auto simp: note_error_def\<close>)
  qed
qed

lemma accountsI:
  "io s' = io s @ evs \<Longrightarrow> io_faults evs \<le> k \<Longrightarrow> errors s' = errors s + io_faults evs \<Longrightarrow>
   error s' = (0 < io_faults evs) \<Longrightarrow> accounts s s' k"
  by (simp add: accounts_def)

lemma accountsD:
  "accounts s s' k \<Longrightarrow> \<exists>evs. io s' = io s @ evs \<and> io_faults evs \<le> k \<and>
     errors s' = errors s + io_faults evs \<and> error s' = (0 < io_faults evs)"
  unfolding accounts_def Let_def
  by (rule exI [of _ "drop (length (io s)) (io s')"]) (metis append_take_drop_id)

lemma accounts_mono: "accounts s s' k \<Longrightarrow> k \<le> k' \<Longrightarrow> accounts s s' k'"
  by (auto simp: accounts_def Let_def)

lemma read_unpack_accounts: "accounts s (out_state (read_unpack B a n f s)) 2"
proof -
  from read_unpack_log [of B a s n f] obtain ok bs where
    "io (out_state (read_unpack B a n f s)) =
       io s @ [EvWriteByte astar_addr a ok, EvSleep 200] @ reads_ok bs @
       (if length bs = n then [] else [EvReadByte astar_addr None])"
    and "errors (out_state (read_unpack B a n f s)) =
       errors s + (if ok then 0 else 1) + (if length bs = n then 0 else 1)"
    and "error (out_state (read_unpack B a n f s)) = (\<not> ok \<or> length bs < n)"
    and "length bs \<le> n"
    by (elim exE conjE) (rule that)
  then show ?thesis
    by (intro accountsI [where evs = "[EvWriteByte astar_addr a ok, EvSleep 200] @ reads_ok bs @
       (if length bs = n then [] else [EvReadByte astar_addr None])"]) auto
qed

lemma write_pack_pack_error:
  "struct_pack f vs = Inl e \<Longrightarrow> write_pack B a f vs s = Raise e s"
  by (simp add: write_pack_def)

lemma write_pack_log:
  assumes "struct_pack f vs = Inr bs"
  shows "\<exists>ok. ok = (fst (write_i2c_block_data B astar_addr a bs (bus s)) \<noteq> None) \<and>
     write_pack B a f vs s = Return PNone (out_state (write_pack B a f vs s)) \<and>
     io (out_state (write_pack B a f vs s)) = io s @ [EvWriteBlock astar_addr a bs ok] \<and>
     errors (out_state (write_pack B a f vs s)) = errors s + (if ok then 0 else 1) \<and>
     error (out_state (write_pack B a f vs s)) = (\<not> ok)"
proof -
  obtain r d where w: "write_i2c_block_data B astar_addr a bs (bus s) = (r, d)" by fastforce
  show ?thesis
    by (cases r) (simp_all add: assms w write_pack_def note_error_def Let_def ex_bool_eq)
qed

section \<open>Properties of the transaction engine\<close>

text \<open>
  C1 (error accounting of a read). A read transaction adds to the log the bus calls it
  made; \<open>errors\<close> grows by exactly the number of those calls that failed (at most two:
  the address select and the byte read), and \<open>error\<close> is set exactly when one of them
  failed, whatever its value before the call.
\<close>

theorem read_unpack_error_accounting:
  "\<exists>evs. io (out_state (read_unpack B a n f s)) = io s @ evs \<and>
     errors (out_state (read_unpack B a n f s)) = errors s + io_faults evs \<and>
     error (out_state (read_unpack B a n f s)) = (0 < io_faults evs) \<and> io_faults evs \<le> 2"
proof -
  from read_unpack_log [of B a s n f] obtain ok bs where
    "length bs \<le> n"
    and "io (out_state (read_unpack B a n f s)) =
       io s @ [EvWriteByte astar_addr a ok, EvSleep 200] @ reads_ok bs @
       (if length bs = n then [] else [EvReadByte astar_addr None])"
    and "errors (out_state (read_unpack B a n f s)) =
       errors s + (if ok then 0 else 1) + (if length bs = n then 0 else 1)"
    and "error (out_state (read_unpack B a n f s)) = (\<not> ok \<or> length bs < n)"
    by blast
  then show ?thesis by (intro exI [of _ "[EvWriteByte astar_addr a ok, EvSleep 200] @ reads_ok bs @
       (if length bs = n then [] else [EvReadByte astar_addr None])"]) auto
qed

text \<open>
  C2 (settling delay). Every read transaction makes, in this order, one address-select
  write of its register address, one 200 microsecond sleep, and then byte reads only (at
  most \<open>size\<close> of them); the sleep comes whether the select write succeeded or not.
\<close>

theorem read_unpack_settle_order:
  "\<exists>ok ros. ok = (fst (write_byte B astar_addr a (bus s)) \<noteq> None) \<and> length ros \<le> n \<and>
     io (out_state (read_unpack B a n f s)) =
       io s @ EvWriteByte astar_addr a ok # EvSleep 200 # map (EvReadByte astar_addr) ros"
proof -
  from read_unpack_log [of B a s n f] obtain ok bs where
    "ok = (fst (write_byte B astar_addr a (bus s)) \<noteq> None)" and "length bs \<le> n"
    and "io (out_state (read_unpack B a n f s)) =
       io s @ [EvWriteByte astar_addr a ok, EvSleep 200] @ reads_ok bs @
       (if length bs = n then [] else [EvReadByte astar_addr None])"
    by blast
  then show ?thesis
    by (intro exI [of _ ok] exI [of _ "map Some bs @ (if length bs = n then [] else [None])"]) auto
qed

text \<open>
  C8 (result of a read, every branch). If all \<open>size\<close> byte reads succeed, the result is
  \<open>struct.unpack\<close> of exactly the bytes read, as a tuple, or its \<open>struct.error\<close>; if a
  read fails, the reads stop there, \<open>error\<close> is set and the result is the integer 0
  (no unpacking is attempted).
\<close>

theorem read_unpack_result:
  "\<exists>ok bs rest.
     io (out_state (read_unpack B a n f s)) =
       io s @ [EvWriteByte astar_addr a ok, EvSleep 200] @ reads_ok bs @ rest \<and>
     (if length bs = n
      then rest = [] \<and>
           read_unpack B a n f s =
             (case struct_unpack f bs of
                Inl e \<Rightarrow> Raise e (out_state (read_unpack B a n f s))
              | Inr vs \<Rightarrow> Return (PTuple vs) (out_state (read_unpack B a n f s)))
      else rest = [EvReadByte astar_addr None] \<and>
           read_unpack B a n f s = Return (PInt 0) (out_state (read_unpack B a n f s)) \<and>
           error (out_state (read_unpack B a n f s)))"
proof -
  from read_unpack_log [of B a s n f] obtain ok bs where
    "io (out_state (read_unpack B a n f s)) =
       io s @ [EvWriteByte astar_addr a ok, EvSleep 200] @ reads_ok bs @
       (if length bs = n then [] else [EvReadByte astar_addr None])"
    and "error (out_state (read_unpack B a n f s)) = (\<not> ok \<or> length bs < n)"
    and "length bs \<le> n"
    and "read_unpack B a n f s =
       (if length bs = n
        then (case struct_unpack f bs of
                Inl e \<Rightarrow> Raise e (out_state (read_unpack B a n f s))
              | Inr vs \<Rightarrow> Return (PTuple vs) (out_state (read_unpack B a n f s)))
        else Return (PInt 0) (out_state (read_unpack B a n f s)))"
    by blast
  then show ?thesis
    by (intro exI [of _ ok] exI [of _ bs] exI [of _ "if length bs = n then [] else [EvReadByte astar_addr None]"])
       auto
qed

text \<open>
  C4 (serialisation round trip). For every format and values of the format's field
  types and ranges, a write transaction makes one block write whose payload has
  \<open>calcsize\<close> bytes and unpacks, with the same format, to the values written.
\<close>

theorem write_pack_roundtrip:
  assumes "parse_format f = Some fs" and "list_all2 fits (value_items fs) vs"
  shows "\<exists>bs ok. write_pack B a f vs s = Return PNone (out_state (write_pack B a f vs s)) \<and>
     io (out_state (write_pack B a f vs s)) = io s @ [EvWriteBlock astar_addr a bs ok] \<and>
     length bs = calcsize fs \<and> struct_unpack f bs = Inr vs"
proof -
  from struct_roundtrip [OF assms] obtain bs where
    p: "struct_pack f vs = Inr bs" and "length bs = calcsize fs" and "struct_unpack f bs = Inr vs"
    by blast
  with write_pack_log [OF p, of B a s] show ?thesis by blast
qed

theorem write_pack_roundtrip_witness:
  "parse_format ''hh'' = Some [Fmth, Fmth] \<and>
   list_all2 fits (value_items [Fmth, Fmth]) [PInt 150, PInt (-150)] \<and>
   (\<exists>bs ok. write_pack sim_bus 6 ''hh'' [PInt 150, PInt (-150)] (astar_init (sim_blank 12)) =
        Return PNone (out_state (write_pack sim_bus 6 ''hh'' [PInt 150, PInt (-150)] (astar_init (sim_blank 12)))) \<and>
      io (out_state (write_pack sim_bus 6 ''hh'' [PInt 150, PInt (-150)] (astar_init (sim_blank 12)))) =
        io (astar_init (sim_blank 12)) @ [EvWriteBlock astar_addr 6 bs ok] \<and>
      length bs = calcsize [Fmth, Fmth] \<and> struct_unpack ''hh'' bs = Inr [PInt 150, PInt (-150)])"
proof -
  have f: "parse_format ''hh'' = Some [Fmth, Fmth]" by (simp add: wire_simps)
  have v: "list_all2 fits (value_items [Fmth, Fmth]) [PInt 150, PInt (-150)]" by (simp add: wire_simps)
  show ?thesis using write_pack_roundtrip [OF f v, of sim_bus 6 "astar_init (sim_blank 12)"] f v by blast
qed

text \<open>
  C9 (error accounting of a write). A write transaction makes at most one bus call;
  \<open>errors\<close> grows by one exactly when it failed; when the transaction returns, \<open>error\<close>
  is set exactly when it failed, and when \<open>struct.pack\<close> raised first the flag keeps
  its old value (the reset at line 52 comes after the pack at line 51).
\<close>

theorem write_pack_error_accounting:
  "\<exists>evs. io (out_state (write_pack B a f vs s)) = io s @ evs \<and> length evs \<le> 1 \<and>
     errors (out_state (write_pack B a f vs s)) = errors s + io_faults evs \<and>
     error (out_state (write_pack B a f vs s)) =
       (if returned (write_pack B a f vs s) then 0 < io_faults evs else error s)"
proof (cases "struct_pack f vs")
  case (Inl e)
  then show ?thesis by (simp add: write_pack_pack_error)
next
  case (Inr bs)
  from write_pack_log [OF Inr, of B a s] obtain ok where
    ret: "write_pack B a f vs s = Return PNone (out_state (write_pack B a f vs s))"
    and "io (out_state (write_pack B a f vs s)) = io s @ [EvWriteBlock astar_addr a bs ok]"
    and "errors (out_state (write_pack B a f vs s)) = errors s + (if ok then 0 else 1)"
    and "error (out_state (write_pack B a f vs s)) = (\<not> ok)"
    by blast
  moreover have "returned (write_pack B a f vs s)" by (subst ret) simp
  ultimately show ?thesis by (intro exI [of _ "[EvWriteBlock astar_addr a bs ok]"]) simp
qed

text \<open>
  C11 (pack errors escape). A write transaction raises \<open>struct.error\<close>, with no bus
  call and the object unchanged, exactly when a value is not accepted by its field (wrong
  type or out of range, or a wrong number of values); it raises nothing else.
\<close>

theorem write_pack_struct_error:
  assumes "parse_format f = Some fs"
  shows "(write_pack B a f vs s = Raise StructError s) = (\<not> list_all2 accepts (value_items fs) vs) \<and>
         (\<forall>e s'. write_pack B a f vs s = Raise e s' \<longrightarrow> e = StructError \<and> s' = s)"
proof -
  from struct_pack_ok_iff [OF assms, of vs] have
    ok: "(\<exists>bs. struct_pack f vs = Inr bs) = list_all2 accepts (value_items fs) vs"
    and ex: "\<forall>e. struct_pack f vs = Inl e \<longrightarrow> e = StructError" by blast+
  show ?thesis
  proof (cases "struct_pack f vs")
    case (Inl e)
    with ok ex show ?thesis by (auto simp: write_pack_pack_error)
  next
    case (Inr bs)
    with write_pack_log [OF Inr, of B a s] ok show ?thesis by (metis outcome.distinct(1))
  qed
qed

theorem write_pack_struct_error_witness:
  "parse_format ''hh'' = Some [Fmth, Fmth] \<and>
   \<not> list_all2 accepts (value_items [Fmth, Fmth]) [PInt 40000, PInt 0] \<and>
   write_pack sim_bus 6 ''hh'' [PInt 40000, PInt 0] (astar_init (sim_blank 12)) =
     Raise StructError (astar_init (sim_blank 12))"
proof -
  have f: "parse_format ''hh'' = Some [Fmth, Fmth]" by (simp add: wire_simps)
  have na: "\<not> list_all2 accepts (value_items [Fmth, Fmth]) [PInt 40000, PInt 0]"
    by (simp add: wire_simps)
  show ?thesis
    using write_pack_struct_error [OF f, of sim_bus 6 "[PInt 40000, PInt 0]" "astar_init (sim_blank 12)"] f na
    by blast
qed

end
