(* ===== verification/Endpoints.thy ===== *)
theory Endpoints
  imports Prelude Struct Bus Engine
begin

text \<open>
  The register endpoint layer of \<open>src/a_star.py\<close> (lines 62-145): the named
  operations of \<open>AStar\<close>, each a fixed register address, format and sentinel bound to
  the engine, and the three test helpers. The write endpoints reset the flag and call
  \<open>write_pack\<close> (their \<open>if self.error: pass\<close> does nothing); the read endpoints reset the
  flag, call \<open>read_unpack\<close> and replace its result by a fixed list when the flag is set
  afterwards (\<open>checked_read\<close>, the shape shared by lines 89-129). A caller's session is
  a list of \<open>call\<close>s run in order, stopped by the first exception that escapes.
\<close>

section \<open>Write endpoints\<close>

text \<open>\<open>str.encode("ascii")\<close>: raises \<open>UnicodeEncodeError\<close> on a character above 127.\<close>

definition ascii_encode :: "string \<Rightarrow> byte list option" where
  "ascii_encode cs =
     (if list_all (\<lambda>c. of_char c < (128 :: nat)) cs
      then Some (map (\<lambda>c. of_nat (of_char c)) cs) else None)"

definition leds :: "'d smbus \<Rightarrow> int \<Rightarrow> int \<Rightarrow> int \<Rightarrow> 'd astar \<Rightarrow> (pyval, 'd astar) outcome" where
  "leds B red yellow green s =
     write_pack B 0 ''BBB'' [PInt red, PInt yellow, PInt green] (s\<lparr>error := False\<rparr>)"

definition play_notes :: "'d smbus \<Rightarrow> string \<Rightarrow> 'd astar \<Rightarrow> (pyval, 'd astar) outcome" where
  "play_notes B notes s =
     (let s0 = s\<lparr>error := False\<rparr>
      in case ascii_encode notes of
           None \<Rightarrow> Raise UnicodeEncodeError s0
         | Some bs \<Rightarrow> write_pack B 24 ''B15s'' [PInt 1, PBytes bs] s0)"

definition motors :: "'d smbus \<Rightarrow> int \<Rightarrow> int \<Rightarrow> 'd astar \<Rightarrow> (pyval, 'd astar) outcome" where
  "motors B left right s =
     write_pack B 6 ''hh'' [PInt left, PInt right] (s\<lparr>error := False\<rparr>)"

section \<open>Read endpoints\<close>

definition checked_read ::
  "'d smbus \<Rightarrow> byte \<Rightarrow> nat \<Rightarrow> string \<Rightarrow> pyval \<Rightarrow> 'd astar \<Rightarrow> (pyval, 'd astar) outcome" where
  "checked_read B address nbytes format sentinel s =
     (case read_unpack B address nbytes format (s\<lparr>error := False\<rparr>) of
        Raise e s' \<Rightarrow> Raise e s'
      | Return b s' \<Rightarrow> (if error s' then Return sentinel s' else Return b s'))"

definition read_buttons :: "'d smbus \<Rightarrow> 'd astar \<Rightarrow> (pyval, 'd astar) outcome" where
  "read_buttons B = checked_read B 3 3 ''???'' (PList [PInt 0, PInt 0, PInt 0])"

definition read_battery_millivolts :: "'d smbus \<Rightarrow> 'd astar \<Rightarrow> (pyval, 'd astar) outcome" where
  "read_battery_millivolts B = checked_read B 10 2 ''H'' (PList [PInt 0])"

definition read_analog :: "'d smbus \<Rightarrow> 'd astar \<Rightarrow> (pyval, 'd astar) outcome" where
  "read_analog B =
     checked_read B 12 12 ''HHHHHH'' (PList [PInt 0, PInt 0, PInt 0, PInt 0, PInt 0, PInt 0])"

definition read_encoders :: "'d smbus \<Rightarrow> 'd astar \<Rightarrow> (pyval, 'd astar) outcome" where
  "read_encoders B = checked_read B 39 4 ''hh'' (PList [PInt 0, PInt 0])"

section \<open>Test helpers\<close>

text \<open>The two read tests discard the result and do not reset the flag themselves.\<close>

definition test_read8 :: "'d smbus \<Rightarrow> 'd astar \<Rightarrow> (pyval, 'd astar) outcome" where
  "test_read8 B s =
     (case read_unpack B 0 8 ''cccccccc'' s of
        Raise e s' \<Rightarrow> Raise e s'
      | Return v s' \<Rightarrow> Return PNone s')"

definition test_read32 :: "'d smbus \<Rightarrow> 'd astar \<Rightarrow> (pyval, 'd astar) outcome" where
  "test_read32 B s =
     (case read_unpack B 0 32 ''cccccccccccccccccccccccccccccccc'' s of
        Raise e s' \<Rightarrow> Raise e s'
      | Return v s' \<Rightarrow> Return PNone s')"

text \<open>
  \<open>test_write8\<close> calls the bus directly, outside any \<open>try\<close>: a bus fault escapes as
  \<open>OSError\<close>, is not counted, and the sleep after it does not happen.
\<close>

definition test_write8 :: "'d smbus \<Rightarrow> 'd astar \<Rightarrow> (pyval, 'd astar) outcome" where
  "test_write8 B s =
     (case write_i2c_block_data B astar_addr 0 [0, 0, 0, 0, 0, 0, 0, 0] (bus s) of
        (r, d) \<Rightarrow>
          (let s1 = s\<lparr>bus := d,
                 io := io s @ [EvWriteBlock astar_addr 0 [0, 0, 0, 0, 0, 0, 0, 0] (r \<noteq> None)]\<rparr>
           in case r of
                None \<Rightarrow> Raise IOError s1
              | Some u \<Rightarrow> Return PNone (s1\<lparr>io := io s1 @ [EvSleep 200]\<rparr>)))"

section \<open>Sessions: a caller's sequence of calls\<close>

datatype call =
    Leds int int int
  | PlayNotes string
  | Motors int int
  | ReadButtons
  | ReadBatteryMillivolts
  | ReadAnalog
  | ReadEncoders
  | TestRead8
  | TestRead32
  | TestWrite8

primrec astar_call :: "'d smbus \<Rightarrow> call \<Rightarrow> 'd astar \<Rightarrow> (pyval, 'd astar) outcome" where
  "astar_call B (Leds r y g) = leds B r y g"
| "astar_call B (PlayNotes n) = play_notes B n"
| "astar_call B (Motors l r) = motors B l r"
| "astar_call B ReadButtons = read_buttons B"
| "astar_call B ReadBatteryMillivolts = read_battery_millivolts B"
| "astar_call B ReadAnalog = read_analog B"
| "astar_call B ReadEncoders = read_encoders B"
| "astar_call B TestRead8 = test_read8 B"
| "astar_call B TestRead32 = test_read32 B"
| "astar_call B TestWrite8 = test_write8 B"

fun astar_run :: "'d smbus \<Rightarrow> call list \<Rightarrow> 'd astar \<Rightarrow> (pyval list, 'd astar) outcome" where
  "astar_run B [] s = Return [] s"
| "astar_run B (c # cs) s =
     (case astar_call B c s of
        Raise e s' \<Rightarrow> Raise e s'
      | Return v s' \<Rightarrow>
          (case astar_run B cs s' of
             Raise e s'' \<Rightarrow> Raise e s''
           | Return vs s'' \<Rightarrow> Return (v # vs) s''))"

section \<open>Lemmas: accounting of one call and of a session\<close>

lemma accounts_reset [simp]: "accounts (s\<lparr>error := False\<rparr>) s' k = accounts s s' k"
  by (simp add: accounts_def)

lemma accounts_reset_self: "accounts s (s\<lparr>error := False\<rparr>) k"
  by (simp add: accounts_def)

lemma checked_read_accounts: "accounts s (out_state (checked_read B a n f sent s)) 2"
proof -
  have "out_state (checked_read B a n f sent s) = out_state (read_unpack B a n f (s\<lparr>error := False\<rparr>))"
    by (simp add: checked_read_def split: outcome.splits)
  then show ?thesis using read_unpack_accounts [of "s\<lparr>error := False\<rparr>" B a n f] by simp
qed

lemma write_endpoint_accounts: "accounts s (out_state (write_pack B a f vs (s\<lparr>error := False\<rparr>))) 1"
proof (cases "struct_pack f vs")
  case (Inl e)
  then show ?thesis by (simp add: write_pack_pack_error accounts_reset_self)
next
  case (Inr bs)
  from write_pack_log [OF Inr, of B a "s\<lparr>error := False\<rparr>"] obtain ok where
    "io (out_state (write_pack B a f vs (s\<lparr>error := False\<rparr>))) = io s @ [EvWriteBlock astar_addr a bs ok]"
    and "errors (out_state (write_pack B a f vs (s\<lparr>error := False\<rparr>))) = errors s + (if ok then 0 else 1)"
    and "error (out_state (write_pack B a f vs (s\<lparr>error := False\<rparr>))) = (\<not> ok)"
    by (elim exE conjE) simp
  then show ?thesis by (intro accountsI [where evs = "[EvWriteBlock astar_addr a bs ok]"]) auto
qed

lemma call_accounts: "c \<noteq> TestWrite8 \<Longrightarrow> accounts s (out_state (astar_call B c s)) 2"
proof (cases c)
  case (Leds r y g)
  then show ?thesis
    using accounts_mono [OF write_endpoint_accounts [of s B 0 "''BBB''" "[PInt r, PInt y, PInt g]"]]
    by (simp add: leds_def)
next
  case (PlayNotes ns)
  show ?thesis
  proof (cases "ascii_encode ns")
    case None
    with PlayNotes show ?thesis by (simp add: play_notes_def accounts_reset_self)
  next
    case (Some bs)
    with PlayNotes show ?thesis
      using accounts_mono [OF write_endpoint_accounts [of s B 24 "''B15s''" "[PInt 1, PBytes bs]"]]
      by (simp add: play_notes_def)
  qed
next
  case (Motors l r)
  then show ?thesis
    using accounts_mono [OF write_endpoint_accounts [of s B 6 "''hh''" "[PInt l, PInt r]"]]
    by (simp add: motors_def)
next
  case ReadButtons
  then show ?thesis by (simp add: read_buttons_def checked_read_accounts)
next
  case ReadBatteryMillivolts
  then show ?thesis by (simp add: read_battery_millivolts_def checked_read_accounts)
next
  case ReadAnalog
  then show ?thesis by (simp add: read_analog_def checked_read_accounts)
next
  case ReadEncoders
  then show ?thesis by (simp add: read_encoders_def checked_read_accounts)
next
  case TestRead8
  have "out_state (test_read8 B s) = out_state (read_unpack B 0 8 ''cccccccc'' s)"
    by (simp add: test_read8_def split: outcome.splits)
  with TestRead8 show ?thesis by (simp add: read_unpack_accounts)
next
  case TestRead32
  have "out_state (test_read32 B s) = out_state (read_unpack B 0 32 ''cccccccccccccccccccccccccccccccc'' s)"
    by (simp add: test_read32_def split: outcome.splits)
  with TestRead32 show ?thesis by (simp add: read_unpack_accounts)
qed simp

lemma test_write8_log:
  "\<exists>ok. ok = (fst (write_i2c_block_data B astar_addr 0 [0, 0, 0, 0, 0, 0, 0, 0] (bus s)) \<noteq> None) \<and>
     errors (out_state (test_write8 B s)) = errors s \<and> error (out_state (test_write8 B s)) = error s \<and>
     io (out_state (test_write8 B s)) =
       io s @ [EvWriteBlock astar_addr 0 [0, 0, 0, 0, 0, 0, 0, 0] ok] @ (if ok then [EvSleep 200] else []) \<and>
     test_write8 B s =
       (if ok then Return PNone (out_state (test_write8 B s)) else Raise IOError (out_state (test_write8 B s)))"
proof -
  obtain r d where "write_i2c_block_data B astar_addr 0 [0, 0, 0, 0, 0, 0, 0, 0] (bus s) = (r, d)"
    by fastforce
  then show ?thesis by (cases r) (auto simp: test_write8_def)
qed

lemma call_step:
  "\<exists>evs. io (out_state (astar_call B c s)) = io s @ evs \<and> io_faults evs \<le> 2 \<and>
     errors s \<le> errors (out_state (astar_call B c s)) \<and>
     errors (out_state (astar_call B c s)) \<le> errors s + io_faults evs \<and>
     (c \<noteq> TestWrite8 \<longrightarrow> errors (out_state (astar_call B c s)) = errors s + io_faults evs)"
proof (cases "c = TestWrite8")
  case True
  from test_write8_log [of B s] obtain ok where
    "errors (out_state (test_write8 B s)) = errors s"
    and "io (out_state (test_write8 B s)) =
       io s @ [EvWriteBlock astar_addr 0 [0, 0, 0, 0, 0, 0, 0, 0] ok] @ (if ok then [EvSleep 200] else [])"
    by (elim exE conjE) simp
  with True show ?thesis
    by (intro exI [of _ "[EvWriteBlock astar_addr 0 [0, 0, 0, 0, 0, 0, 0, 0] ok] @ (if ok then [EvSleep 200] else [])"])
       simp
next
  case False
  from accountsD [OF call_accounts [OF False, of s B]] obtain evs where
    "io (out_state (astar_call B c s)) = io s @ evs" and "io_faults evs \<le> 2"
    and "errors (out_state (astar_call B c s)) = errors s + io_faults evs"
    by (elim exE conjE) simp
  then show ?thesis by (intro exI [of _ evs]) simp
qed

lemma out_state_run_Cons:
  "out_state (astar_run B (c # cs) s) =
     (case astar_call B c s of Raise e s1 \<Rightarrow> s1 | Return v s1 \<Rightarrow> out_state (astar_run B cs s1))"
  by (simp split: outcome.splits)

lemma run_accounting:
  "\<exists>evs. io (out_state (astar_run B cs s)) = io s @ evs \<and> io_faults evs \<le> 2 * length cs \<and>
     errors s \<le> errors (out_state (astar_run B cs s)) \<and>
     errors (out_state (astar_run B cs s)) \<le> errors s + io_faults evs \<and>
     (TestWrite8 \<notin> set cs \<longrightarrow> errors (out_state (astar_run B cs s)) = errors s + io_faults evs)"
proof (induction cs arbitrary: s)
  case Nil
  then show ?case by simp
next
  case (Cons c cs)
  from call_step [of B c s] obtain evs1 where
    i1: "io (out_state (astar_call B c s)) = io s @ evs1" and f1: "io_faults evs1 \<le> 2"
    and e1: "errors s \<le> errors (out_state (astar_call B c s))"
    and e1': "errors (out_state (astar_call B c s)) \<le> errors s + io_faults evs1"
    and e1'': "c \<noteq> TestWrite8 \<longrightarrow> errors (out_state (astar_call B c s)) = errors s + io_faults evs1"
    by (elim exE conjE) simp
  show ?case
  proof (cases "astar_call B c s")
    case (Raise e s1)
    then have o: "out_state (astar_run B (c # cs) s) = s1" and o1: "out_state (astar_call B c s) = s1"
      by (simp_all add: out_state_run_Cons del: astar_run.simps)
    from i1 f1 e1 e1' e1'' show ?thesis
      unfolding o o1 by (intro exI [of _ evs1]) auto
  next
    case (Return v s1)
    then have o: "out_state (astar_run B (c # cs) s) = out_state (astar_run B cs s1)"
      and o1: "out_state (astar_call B c s) = s1"
      by (simp_all add: out_state_run_Cons del: astar_run.simps)
    from Cons.IH [of s1] obtain evs2 where
      i2: "io (out_state (astar_run B cs s1)) = io s1 @ evs2" and f2: "io_faults evs2 \<le> 2 * length cs"
      and e2: "errors s1 \<le> errors (out_state (astar_run B cs s1))"
      and e2': "errors (out_state (astar_run B cs s1)) \<le> errors s1 + io_faults evs2"
      and e2'': "TestWrite8 \<notin> set cs \<longrightarrow> errors (out_state (astar_run B cs s1)) = errors s1 + io_faults evs2"
      by (elim exE conjE) simp
    from i1 f1 e1 e1' e1'' i2 f2 e2 e2' e2'' show ?thesis
      unfolding o o1 by (intro exI [of _ "evs1 @ evs2"]) auto
  qed
qed

lemma checked_read_fits:
  assumes "parse_format f = Some fs" and "calcsize fs = n"
  shows "\<exists>v s'. checked_read B a n f sent s = Return v s' \<and>
           (v = sent \<or> (\<exists>vs. v = PTuple vs \<and> list_all2 fits (value_items fs) vs))"
proof -
  let ?r = "read_unpack B a n f (s\<lparr>error := False\<rparr>)"
  obtain s' where s': "out_state ?r = s'" by simp
  from read_unpack_log [of B a "s\<lparr>error := False\<rparr>" n f] obtain ok bs where
    len: "length bs \<le> n" and f: "error (out_state ?r) = (\<not> ok \<or> length bs < n)"
    and r: "?r = (if length bs = n
        then (case struct_unpack f bs of
                Inl e \<Rightarrow> Raise e (out_state ?r)
              | Inr vs \<Rightarrow> Return (PTuple vs) (out_state ?r))
        else Return (PInt 0) (out_state ?r))"
    by (elim exE conjE) (rule that)
  show ?thesis
  proof (cases "length bs = n")
    case True
    with assms have u: "struct_unpack f bs = Inr (unpack_items fs bs)"
      by (simp add: struct_unpack_def)
    from True assms have fit: "list_all2 fits (value_items fs) (unpack_items fs bs)"
      by (simp add: unpack_items_fits)
    from r True u s' have "?r = Return (PTuple (unpack_items fs bs)) s'" by simp
    then have "checked_read B a n f sent s =
        Return (if error s' then sent else PTuple (unpack_items fs bs)) s'"
      by (simp add: checked_read_def)
    with fit show ?thesis by (cases "error s'") auto
  next
    case False
    with r s' have "?r = Return (PInt 0) s'" by simp
    moreover from False len f s' have "error s'" by simp
    ultimately have "checked_read B a n f sent s = Return sent s'"
      by (simp add: checked_read_def)
    then show ?thesis by blast
  qed
qed

lemma checked_read_shape:
  assumes "parse_format f = Some fs" and "calcsize fs = n"
    and "\<And>vs. list_all2 fits (value_items fs) vs \<Longrightarrow> P (PTuple vs)" and "P sent"
  shows "\<exists>v s'. checked_read B a n f sent s = Return v s' \<and> P v"
proof -
  from checked_read_fits [OF assms(1,2), of B a sent s] obtain v s' where
    r: "checked_read B a n f sent s = Return v s'"
    and v: "v = sent \<or> (\<exists>vs. v = PTuple vs \<and> list_all2 fits (value_items fs) vs)"
    by (elim exE conjE) (rule that)
  from v assms(3,4) have "P v" by (elim disjE exE conjE) simp_all
  with r show ?thesis by blast
qed

lemma fits3_FmtBool:
  "list_all2 fits [FmtBool, FmtBool, FmtBool] vs \<Longrightarrow> \<exists>b1 b2 b3. vs = [PBool b1, PBool b2, PBool b3]"
  by (auto simp: fits_FmtBool list_all2_Cons1)

lemma fits1_FmtH:
  "list_all2 fits [FmtH] vs \<Longrightarrow> \<exists>mv. vs = [PInt mv] \<and> 0 \<le> mv \<and> mv \<le> 65535"
  by (auto simp: fits_FmtH list_all2_Cons1)

lemma fits_all_FmtH:
  "set fs \<subseteq> {FmtH} \<Longrightarrow> list_all2 fits fs vs \<Longrightarrow>
   \<exists>xs. vs = map PInt xs \<and> length xs = length fs \<and> list_all (\<lambda>x. 0 \<le> x \<and> x \<le> 65535) xs"
proof (induction fs arbitrary: vs)
  case Nil
  then show ?case by simp
next
  case (Cons f fs)
  from Cons.prems obtain v vs' where vs: "vs = v # vs'" and fv: "fits FmtH v" and rest: "list_all2 fits fs vs'"
    by (auto simp: list_all2_Cons1)
  from fv obtain i where "v = PInt i" and "0 \<le> i" and "i \<le> 65535" by (auto simp: fits_FmtH)
  moreover from Cons.IH [OF _ rest] Cons.prems obtain xs where
    "vs' = map PInt xs" and "length xs = length fs" and "list_all (\<lambda>x. 0 \<le> x \<and> x \<le> 65535) xs"
    by auto
  ultimately show ?case using vs by (intro exI [of _ "i # xs"]) simp
qed

lemma fits2_Fmth:
  "list_all2 fits [Fmth, Fmth] vs \<Longrightarrow>
   \<exists>l r. vs = [PInt l, PInt r] \<and> - 32768 \<le> l \<and> l \<le> 32767 \<and> - 32768 \<le> r \<and> r \<le> 32767"
  by (auto simp: fits_Fmth list_all2_Cons1)

lemma catalog_formats:
  "parse_format ''???'' = Some [FmtBool, FmtBool, FmtBool]" "calcsize [FmtBool, FmtBool, FmtBool] = 3"
  "parse_format ''H'' = Some [FmtH]" "calcsize [FmtH] = 2"
  "parse_format ''HHHHHH'' = Some [FmtH, FmtH, FmtH, FmtH, FmtH, FmtH]"
  "calcsize [FmtH, FmtH, FmtH, FmtH, FmtH, FmtH] = 12"
  "parse_format ''hh'' = Some [Fmth, Fmth]" "calcsize [Fmth, Fmth] = 4"
  by (code_simp, simp add: calcsize_def)+

lemma write_pack_Raise_iff:
  "(write_pack B a f vs s = Raise e s') \<longleftrightarrow> (struct_pack f vs = Inl e \<and> s' = s)"
proof (cases "struct_pack f vs")
  case (Inl x)
  then show ?thesis by (auto simp: write_pack_def)
next
  case (Inr bs)
  obtain r d where "write_i2c_block_data B astar_addr a bs (bus (s\<lparr>error := False\<rparr>)) = (r, d)"
    by fastforce
  with Inr show ?thesis by (simp add: write_pack_def Let_def)
qed

lemma struct_pack_Inl_iff:
  "parse_format f = Some fs \<Longrightarrow> (struct_pack f vs = Inl e) \<longleftrightarrow> e = StructError \<and> \<not> list_all2 accepts (value_items fs) vs"
  using struct_pack_ok_iff [of f fs vs] by (cases "struct_pack f vs") auto

lemma catalog_write_formats:
  "parse_format ''BBB'' = Some [FmtB, FmtB, FmtB]" "parse_format ''B15s'' = Some [FmtB, FmtS 15]"
  by code_simp+

section \<open>Properties of the endpoint layer\<close>

text \<open>
  C3 (sentinel substitution). A read endpoint makes the engine's read transaction and
  returns the decoded tuple only when every bus call of the transaction succeeded; when
  the select write failed, or a byte read failed, it returns its fixed sentinel list, even
  when all bytes were read (the second safety net of lines 92-94). Only a \<open>struct.error\<close>
  of the unpacking, impossible for the catalogue's formats (C10), passes through.
\<close>

theorem checked_read_sentinel:
  "\<exists>ok bs. ok = (fst (write_byte B astar_addr a (bus s)) \<noteq> None) \<and> length bs \<le> n \<and>
     io (out_state (checked_read B a n f sent s)) =
       io s @ [EvWriteByte astar_addr a ok, EvSleep 200] @ reads_ok bs @
       (if length bs = n then [] else [EvReadByte astar_addr None]) \<and>
     errors (out_state (checked_read B a n f sent s)) =
       errors s + (if ok then 0 else 1) + (if length bs = n then 0 else 1) \<and>
     error (out_state (checked_read B a n f sent s)) = (\<not> (ok \<and> length bs = n)) \<and>
     checked_read B a n f sent s =
       (if length bs = n
        then (case struct_unpack f bs of
                Inl e \<Rightarrow> Raise e (out_state (checked_read B a n f sent s))
              | Inr vs \<Rightarrow> Return (if ok then PTuple vs else sent) (out_state (checked_read B a n f sent s)))
        else Return sent (out_state (checked_read B a n f sent s)))"
proof -
  let ?s0 = "s\<lparr>error := False\<rparr>"
  from read_unpack_log [of B a ?s0 n f] obtain ok bs where
    ok: "ok = (fst (write_byte B astar_addr a (bus s)) \<noteq> None)" and len: "length bs \<le> n"
    and i: "io (out_state (read_unpack B a n f ?s0)) =
       io s @ [EvWriteByte astar_addr a ok, EvSleep 200] @ reads_ok bs @
       (if length bs = n then [] else [EvReadByte astar_addr None])"
    and e: "errors (out_state (read_unpack B a n f ?s0)) =
       errors s + (if ok then 0 else 1) + (if length bs = n then 0 else 1)"
    and f: "error (out_state (read_unpack B a n f ?s0)) = (\<not> ok \<or> length bs < n)"
    and r: "read_unpack B a n f ?s0 =
       (if length bs = n
        then (case struct_unpack f bs of
                Inl e \<Rightarrow> Raise e (out_state (read_unpack B a n f ?s0))
              | Inr vs \<Rightarrow> Return (PTuple vs) (out_state (read_unpack B a n f ?s0)))
        else Return (PInt 0) (out_state (read_unpack B a n f ?s0)))"
    by auto
  have st: "out_state (checked_read B a n f sent s) = out_state (read_unpack B a n f ?s0)"
    by (simp add: checked_read_def split: outcome.splits)
  have cr: "checked_read B a n f sent s =
       (if length bs = n
        then (case struct_unpack f bs of
                Inl e \<Rightarrow> Raise e (out_state (read_unpack B a n f ?s0))
              | Inr vs \<Rightarrow> Return (if ok then PTuple vs else sent) (out_state (read_unpack B a n f ?s0)))
        else Return sent (out_state (read_unpack B a n f ?s0)))"
    unfolding checked_read_def
    by (subst r) (use f len in \<open>auto split: sum.splits\<close>)
  have f': "error (out_state (read_unpack B a n f ?s0)) = (\<not> (ok \<and> length bs = n))"
    using f len by auto
  show ?thesis unfolding st using ok len i e f' cr by blast
qed

text \<open>
  C5 (monotone counter). Over any session of calls, whatever the bus does and whatever
  exception ends it, \<open>errors\<close> never decreases.
\<close>

theorem errors_monotone:
  "errors s \<le> errors (out_state (astar_run B cs s))"
  using run_accounting [of B cs s] by (elim exE conjE)

text \<open>
  C6 (the flag reflects the last call). After any call but \<open>test_write8\<close>, \<open>error\<close> is
  set exactly when a bus call of that call failed, whatever it was before, and \<open>errors\<close>
  grew by the number of those failures (at most two).
\<close>

theorem error_flag_reflects_call:
  assumes "c \<noteq> TestWrite8"
  shows "\<exists>evs. io (out_state (astar_call B c s)) = io s @ evs \<and> io_faults evs \<le> 2 \<and>
     errors (out_state (astar_call B c s)) = errors s + io_faults evs \<and>
     error (out_state (astar_call B c s)) = (0 < io_faults evs)"
  by (rule accountsD [OF call_accounts [OF assms]])

theorem error_flag_reflects_call_witness:
  "ReadButtons \<noteq> TestWrite8 \<and>
   (\<exists>evs. io (out_state (astar_call sim_bus ReadButtons (astar_init (sim_blank 8)))) =
        io (astar_init (sim_blank 8)) @ evs \<and> io_faults evs \<le> 2 \<and>
      errors (out_state (astar_call sim_bus ReadButtons (astar_init (sim_blank 8)))) =
        errors (astar_init (sim_blank 8)) + io_faults evs \<and>
      error (out_state (astar_call sim_bus ReadButtons (astar_init (sim_blank 8)))) = (0 < io_faults evs))"
proof -
  have c: "ReadButtons \<noteq> TestWrite8" by simp
  show ?thesis by (rule conjI [OF c error_flag_reflects_call [OF c]])
qed

text \<open>
  C10 (read endpoints never raise; result ranges). On any bus, each read endpoint returns
  (never raises), and returns either its sentinel list or a tuple of its layout: three
  bools for the buttons, one millivolt value in 0..65535, six analog readings in 0..65535,
  two encoder counts in -32768..32767.
\<close>

theorem read_endpoints_results:
  "(\<exists>v s'. read_buttons B s = Return v s' \<and>
       (v = PList [PInt 0, PInt 0, PInt 0] \<or> (\<exists>b1 b2 b3. v = PTuple [PBool b1, PBool b2, PBool b3]))) \<and>
   (\<exists>v s'. read_battery_millivolts B s = Return v s' \<and>
       (v = PList [PInt 0] \<or> (\<exists>mv. v = PTuple [PInt mv] \<and> 0 \<le> mv \<and> mv \<le> 65535))) \<and>
   (\<exists>v s'. read_analog B s = Return v s' \<and>
       (v = PList [PInt 0, PInt 0, PInt 0, PInt 0, PInt 0, PInt 0] \<or>
        (\<exists>xs. v = PTuple (map PInt xs) \<and> length xs = 6 \<and> list_all (\<lambda>x. 0 \<le> x \<and> x \<le> 65535) xs))) \<and>
   (\<exists>v s'. read_encoders B s = Return v s' \<and>
       (v = PList [PInt 0, PInt 0] \<or>
        (\<exists>l r. v = PTuple [PInt l, PInt r] \<and> - 32768 \<le> l \<and> l \<le> 32767 \<and> - 32768 \<le> r \<and> r \<le> 32767)))"
proof (intro conjI)
  show "\<exists>v s'. read_buttons B s = Return v s' \<and>
       (v = PList [PInt 0, PInt 0, PInt 0] \<or> (\<exists>b1 b2 b3. v = PTuple [PBool b1, PBool b2, PBool b3]))"
    unfolding read_buttons_def
  proof (rule checked_read_shape [OF catalog_formats(1,2)])
    fix vs assume "list_all2 fits (value_items [FmtBool, FmtBool, FmtBool]) vs"
    then have "list_all2 fits [FmtBool, FmtBool, FmtBool] vs" by (simp add: value_items_def)
    from fits3_FmtBool [OF this] show "PTuple vs = PList [PInt 0, PInt 0, PInt 0] \<or>
       (\<exists>b1 b2 b3. PTuple vs = PTuple [PBool b1, PBool b2, PBool b3])" by blast
  qed simp
  show "\<exists>v s'. read_battery_millivolts B s = Return v s' \<and>
       (v = PList [PInt 0] \<or> (\<exists>mv. v = PTuple [PInt mv] \<and> 0 \<le> mv \<and> mv \<le> 65535))"
    unfolding read_battery_millivolts_def
  proof (rule checked_read_shape [OF catalog_formats(3,4)])
    fix vs assume "list_all2 fits (value_items [FmtH]) vs"
    then have "list_all2 fits [FmtH] vs" by (simp add: value_items_def)
    from fits1_FmtH [OF this] show "PTuple vs = PList [PInt 0] \<or>
       (\<exists>mv. PTuple vs = PTuple [PInt mv] \<and> 0 \<le> mv \<and> mv \<le> 65535)" by blast
  qed simp
  show "\<exists>v s'. read_analog B s = Return v s' \<and>
       (v = PList [PInt 0, PInt 0, PInt 0, PInt 0, PInt 0, PInt 0] \<or>
        (\<exists>xs. v = PTuple (map PInt xs) \<and> length xs = 6 \<and> list_all (\<lambda>x. 0 \<le> x \<and> x \<le> 65535) xs))"
    unfolding read_analog_def
  proof (rule checked_read_shape [OF catalog_formats(5,6)])
    fix vs assume "list_all2 fits (value_items [FmtH, FmtH, FmtH, FmtH, FmtH, FmtH]) vs"
    then have "list_all2 fits [FmtH, FmtH, FmtH, FmtH, FmtH, FmtH] vs" by (simp add: value_items_def)
    have "set [FmtH, FmtH, FmtH, FmtH, FmtH, FmtH] \<subseteq> {FmtH}" by simp
    from fits_all_FmtH [OF this \<open>list_all2 fits [FmtH, FmtH, FmtH, FmtH, FmtH, FmtH] vs\<close>] obtain xs where
      "vs = map PInt xs" and "length xs = 6" and "list_all (\<lambda>x. 0 \<le> x \<and> x \<le> 65535) xs"
      by (elim exE conjE) simp
    then show "PTuple vs = PList [PInt 0, PInt 0, PInt 0, PInt 0, PInt 0, PInt 0] \<or>
        (\<exists>xs. PTuple vs = PTuple (map PInt xs) \<and> length xs = 6 \<and> list_all (\<lambda>x. 0 \<le> x \<and> x \<le> 65535) xs)"
      by blast
  qed simp
  show "\<exists>v s'. read_encoders B s = Return v s' \<and>
       (v = PList [PInt 0, PInt 0] \<or>
        (\<exists>l r. v = PTuple [PInt l, PInt r] \<and> - 32768 \<le> l \<and> l \<le> 32767 \<and> - 32768 \<le> r \<and> r \<le> 32767))"
    unfolding read_encoders_def
  proof (rule checked_read_shape [OF catalog_formats(7,8)])
    fix vs assume "list_all2 fits (value_items [Fmth, Fmth]) vs"
    then have "list_all2 fits [Fmth, Fmth] vs" by (simp add: value_items_def)
    from fits2_Fmth [OF this] show "PTuple vs = PList [PInt 0, PInt 0] \<or>
       (\<exists>l r. PTuple vs = PTuple [PInt l, PInt r] \<and> - 32768 \<le> l \<and> l \<le> 32767 \<and> - 32768 \<le> r \<and> r \<le> 32767)"
      by blast
  qed simp
qed

text \<open>
  C12 (the counter counts failures). In a session without \<open>test_write8\<close>, \<open>errors\<close> grows
  by exactly the number of failed bus calls the session made: from a fresh object it is
  the number of failed calls in the log.
\<close>

theorem errors_count_faults:
  assumes "TestWrite8 \<notin> set cs"
  shows "\<exists>evs. io (out_state (astar_run B cs s)) = io s @ evs \<and>
           errors (out_state (astar_run B cs s)) = errors s + io_faults evs"
proof -
  from run_accounting [of B cs s] obtain evs where
    "io (out_state (astar_run B cs s)) = io s @ evs"
    and "TestWrite8 \<notin> set cs \<longrightarrow> errors (out_state (astar_run B cs s)) = errors s + io_faults evs"
    by (elim exE conjE) (rule that)
  with assms show ?thesis by (intro exI [of _ evs]) simp
qed

theorem errors_count_faults_witness:
  "TestWrite8 \<notin> set [ReadBatteryMillivolts, Motors 1 2] \<and>
   (\<exists>evs. io (out_state (astar_run sim_bus [ReadBatteryMillivolts, Motors 1 2] (astar_init (sim_blank 12)))) =
        io (astar_init (sim_blank 12)) @ evs \<and>
      errors (out_state (astar_run sim_bus [ReadBatteryMillivolts, Motors 1 2] (astar_init (sim_blank 12)))) =
        errors (astar_init (sim_blank 12)) + io_faults evs)"
proof -
  have c: "TestWrite8 \<notin> set [ReadBatteryMillivolts, Motors 1 2]" by simp
  show ?thesis by (rule conjI [OF c errors_count_faults [OF c]])
qed

text \<open>
  C13 (out-of-range writes raise). \<open>motors\<close> raises \<open>struct.error\<close> exactly when a speed is
  outside the signed 16-bit range, and \<open>leds\<close> exactly when a value is outside 0..255; the
  exception escapes the object with only the flag reset, contrary to the spec's "never
  raises".
\<close>

theorem write_endpoints_range_raise:
  "(motors B l r s = Raise StructError (s\<lparr>error := False\<rparr>)) =
     (l < - 32768 \<or> 32767 < l \<or> r < - 32768 \<or> 32767 < r) \<and>
   (leds B rd y g s = Raise StructError (s\<lparr>error := False\<rparr>)) =
     (rd < 0 \<or> 255 < rd \<or> y < 0 \<or> 255 < y \<or> g < 0 \<or> 255 < g)"
  by (auto simp: motors_def leds_def write_pack_Raise_iff struct_pack_Inl_iff
                 catalog_formats(7) catalog_write_formats(1) value_items_def)

text \<open>
  C14 (non-ASCII notes raise). \<open>play_notes\<close> raises \<open>UnicodeEncodeError\<close> exactly when the
  string has a character above 127; the encoding is outside the engine's \<open>try\<close>.
\<close>

theorem play_notes_non_ascii_raises:
  "(play_notes B ns s = Raise UnicodeEncodeError (s\<lparr>error := False\<rparr>)) =
     list_ex (\<lambda>c. 128 \<le> (of_char c :: nat)) ns"
proof (cases "ascii_encode ns")
  case None
  then have "list_ex (\<lambda>c. 128 \<le> (of_char c :: nat)) ns"
    by (auto simp: ascii_encode_def list_ex_iff list_all_iff not_less split: if_splits)
  with None show ?thesis by (simp add: play_notes_def)
next
  case (Some bs)
  then have "\<not> list_ex (\<lambda>c. 128 \<le> (of_char c :: nat)) ns"
    by (auto simp: ascii_encode_def list_ex_iff list_all_iff not_less split: if_splits)
  with Some show ?thesis
    by (auto simp: play_notes_def write_pack_Raise_iff struct_pack_Inl_iff catalog_write_formats(2))
qed

text \<open>
  C15 (note payload). For an ASCII string, \<open>play_notes\<close> makes one block write to register
  24 of the tag byte 1 and the string's bytes, cut to 15 bytes and padded with zeros to
  15: a longer string is silently truncated.
\<close>

theorem play_notes_payload:
  assumes "list_all (\<lambda>c. of_char c < (128 :: nat)) ns"
  shows "\<exists>ok s'. play_notes B ns s = Return PNone s' \<and>
    io s' = io s @ [EvWriteBlock astar_addr 24
      (1 # take 15 (map (\<lambda>c. of_nat (of_char c)) ns) @ replicate (15 - length ns) 0) ok]"
proof -
  let ?bs = "map (\<lambda>c. of_nat (of_char c)) ns :: byte list"
  have e: "ascii_encode ns = Some ?bs" using assms by (simp add: ascii_encode_def)
  have p: "struct_pack ''B15s'' [PInt 1, PBytes ?bs] = Inr (1 # take 15 ?bs @ replicate (15 - length ns) 0)"
    by (simp add: struct_pack_def catalog_write_formats(2) int_field_def)
  define w where "w = write_pack B 24 ''B15s'' [PInt 1, PBytes ?bs] (s\<lparr>error := False\<rparr>)"
  from write_pack_log [OF p, of B 24 "s\<lparr>error := False\<rparr>", folded w_def] obtain ok where
    "w = Return PNone (out_state w)"
    and "io (out_state w) = io s @ [EvWriteBlock astar_addr 24 (1 # take 15 ?bs @ replicate (15 - length ns) 0) ok]"
    by (elim exE conjE) (rule that; simp)
  moreover have "play_notes B ns s = w" by (simp add: play_notes_def e w_def)
  ultimately show ?thesis by (intro exI [of _ ok] exI [of _ "out_state w"]) simp
qed

theorem play_notes_payload_witness:
  "list_all (\<lambda>c. of_char c < (128 :: nat)) ''c'' \<and>
   (\<exists>ok s'. play_notes sim_bus ''c'' (astar_init (sim_blank 32)) = Return PNone s' \<and>
      io s' = io (astar_init (sim_blank 32)) @ [EvWriteBlock astar_addr 24
        (1 # take 15 (map (\<lambda>c. of_nat (of_char c)) ''c'') @ replicate (15 - length ''c'') 0) ok])"
proof -
  have a: "list_all (\<lambda>c. of_char c < (128 :: nat)) ''c''" by simp
  show ?thesis using play_notes_payload [OF a, of sim_bus "astar_init (sim_blank 32)"] a by blast
qed

text \<open>
  C17 (test_write8 is unguarded). \<open>test_write8\<close> raises \<open>OSError\<close> exactly when its block
  write fails, and it neither counts the failure nor touches the flag.
\<close>

theorem test_write8_fault_raises:
  "(\<exists>s'. test_write8 B s = Raise IOError s') =
     (fst (write_i2c_block_data B astar_addr 0 [0, 0, 0, 0, 0, 0, 0, 0] (bus s)) = None) \<and>
   errors (out_state (test_write8 B s)) = errors s \<and> error (out_state (test_write8 B s)) = error s"
proof -
  from test_write8_log [of B s] obtain ok where
    ok: "ok = (fst (write_i2c_block_data B astar_addr 0 [0, 0, 0, 0, 0, 0, 0, 0] (bus s)) \<noteq> None)"
    and "errors (out_state (test_write8 B s)) = errors s" and "error (out_state (test_write8 B s)) = error s"
    and r: "test_write8 B s =
       (if ok then Return PNone (out_state (test_write8 B s)) else Raise IOError (out_state (test_write8 B s)))"
    by (elim exE conjE) (rule that)
  moreover have "(\<exists>s'. test_write8 B s = Raise IOError s') = (\<not> ok)"
    by (cases ok) (subst r, simp)+
  ultimately show ?thesis
    by (cases "fst (write_i2c_block_data B astar_addr 0 [0, 0, 0, 0, 0, 0, 0, 0] (bus s))") simp_all
qed

text \<open>
  C18 (bounded counter). A session of \<open>n\<close> calls adds at most \<open>2 n\<close> to \<open>errors\<close>.
\<close>

theorem errors_bounded:
  "errors (out_state (astar_run B cs s)) \<le> errors s + 2 * length cs"
  using run_accounting [of B cs s] by (elim exE conjE) linarith

end
