(* ===== verification/Machine.thy ===== *)
theory Machine
  imports Prelude Struct Bus Engine Endpoints
begin

text \<open>
  The methods of \<open>AStar\<close> at the granularity at which CPython may switch threads: one
  step per statement, \<open>self.errors+=1\<close> as two steps (the load of \<open>self.errors\<close> into a
  thread-local temporary, then the store of its successor: the bytecode is not atomic).
  A thread runs one call of the datatype \<open>call\<close> of \<open>Endpoints\<close>; the object's state
  \<open>'d astar\<close> is shared, the thread's own record \<open>rthread\<close> holds its program point, its
  locals and a ghost counter \<open>myfaults\<close> of its own failed bus calls.

  Run alone, a thread is the method: \<open>rfinish_refines\<close> shows that the machine run to
  completion (\<open>rfinish\<close>, total since \<open>rank\<close> decreases at every step) has exactly the
  outcome of \<open>astar_call\<close>, for every method; this checks that the split into statements
  keeps each method's meaning.
\<close>

section \<open>What each method does\<close>

text \<open>
  The literals of each method (lines 62-145): a read endpoint binds register, byte count,
  format and sentinel (\<open>KRead\<close>); a test read calls \<open>read_unpack\<close> alone (\<open>KTestRead\<close>);
  a write endpoint binds register, format and values (\<open>KWrite\<close>); \<open>play_notes\<close> first
  encodes its string (\<open>KNotes\<close>); \<open>test_write8\<close> writes the bus directly (\<open>KTestWrite\<close>).
\<close>

datatype ckind =
    KRead byte nat string pyval
  | KTestRead byte nat string
  | KWrite byte string "pyval list"
  | KNotes string
  | KTestWrite

fun kind_of :: "call \<Rightarrow> ckind" where
  "kind_of (Leds r y g) = KWrite 0 ''BBB'' [PInt r, PInt y, PInt g]"
| "kind_of (PlayNotes n) = KNotes n"
| "kind_of (Motors l r) = KWrite 6 ''hh'' [PInt l, PInt r]"
| "kind_of ReadButtons = KRead 3 3 ''???'' (PList [PInt 0, PInt 0, PInt 0])"
| "kind_of ReadBatteryMillivolts = KRead 10 2 ''H'' (PList [PInt 0])"
| "kind_of ReadAnalog =
     KRead 12 12 ''HHHHHH'' (PList [PInt 0, PInt 0, PInt 0, PInt 0, PInt 0, PInt 0])"
| "kind_of ReadEncoders = KRead 39 4 ''hh'' (PList [PInt 0, PInt 0])"
| "kind_of TestRead8 = KTestRead 0 8 ''cccccccc''"
| "kind_of TestRead32 = KTestRead 0 32 ''cccccccccccccccccccccccccccccccc''"
| "kind_of TestWrite8 = KTestWrite"

fun rd_addr :: "ckind \<Rightarrow> byte" where
  "rd_addr (KRead a n f z) = a"
| "rd_addr (KTestRead a n f) = a"
| "rd_addr k = 0"

fun rd_n :: "ckind \<Rightarrow> nat" where
  "rd_n (KRead a n f z) = n"
| "rd_n (KTestRead a n f) = n"
| "rd_n k = 0"

fun rd_fmt :: "ckind \<Rightarrow> string" where
  "rd_fmt (KRead a n f z) = f"
| "rd_fmt (KTestRead a n f) = f"
| "rd_fmt k = []"

text \<open>\<open>play_notes\<close> writes register 24 with format \<open>B15s\<close> (line 73).\<close>

fun wr_addr :: "ckind \<Rightarrow> byte" where
  "wr_addr (KWrite a f vs) = a"
| "wr_addr (KNotes ns) = 24"
| "wr_addr k = 0"

fun wr_fmt :: "ckind \<Rightarrow> string" where
  "wr_fmt (KWrite a f vs) = f"
| "wr_fmt (KNotes ns) = ''B15s''"
| "wr_fmt k = []"

fun notes_of :: "ckind \<Rightarrow> string" where
  "notes_of (KNotes ns) = ns"
| "notes_of k = []"

text \<open>
  The value a read returns once \<open>read_unpack\<close> has returned \<open>v\<close> with the flag at
  \<open>err\<close>: a read endpoint substitutes its sentinel when the flag is set (lines 92-96), a
  test read discards the value (lines 134, 139).
\<close>

fun ep_value :: "ckind \<Rightarrow> bool \<Rightarrow> pyval \<Rightarrow> pyval" where
  "ep_value (KRead a n f z) err v = (if err then z else v)"
| "ep_value k err v = PNone"

section \<open>The statement-level machine\<close>

text \<open>Program points, named after the statement about to run.\<close>

datatype rpc =
    Entry          \<comment> \<open>method entry: \<open>self.error=0\<close> (lines 63, 72, 81, 90, 101, 112, 123)\<close>
  | RuReset        \<comment> \<open>line 26: \<open>self.error=0\<close> in \<open>read_unpack\<close>\<close>
  | Select         \<comment> \<open>line 29: \<open>self.bus.write_byte(20, address)\<close>\<close>
  | SelLoad        \<comment> \<open>line 32: load of \<open>self.errors\<close>\<close>
  | SelStore       \<comment> \<open>line 32: store of \<open>self.errors\<close>\<close>
  | SelFlag        \<comment> \<open>line 33: \<open>self.error=1\<close>\<close>
  | Sleep          \<comment> \<open>line 35: \<open>time.sleep(0.0002)\<close>\<close>
  | ReadLoop       \<comment> \<open>line 38: the next \<open>self.bus.read_byte(20)\<close>, or the end of the loop\<close>
  | RdLoad         \<comment> \<open>line 42: load of \<open>self.errors\<close>\<close>
  | RdStore        \<comment> \<open>line 42: store of \<open>self.errors\<close>\<close>
  | RdFlag         \<comment> \<open>line 43: \<open>self.error=1\<close>, then \<open>return 0\<close>\<close>
  | Unpack         \<comment> \<open>line 46: \<open>struct.unpack\<close>\<close>
  | EpCheck        \<comment> \<open>lines 92-96: the endpoint's test of \<open>self.error\<close>\<close>
  | Encode         \<comment> \<open>line 73: \<open>notes.encode("ascii")\<close>\<close>
  | Pack           \<comment> \<open>line 51: \<open>struct.pack\<close>\<close>
  | WReset         \<comment> \<open>line 52: \<open>self.error=0\<close> in \<open>write_pack\<close>\<close>
  | Block          \<comment> \<open>line 54: \<open>self.bus.write_i2c_block_data(20, address, data_array)\<close>\<close>
  | WLoad          \<comment> \<open>line 57: load of \<open>self.errors\<close>\<close>
  | WStore         \<comment> \<open>line 57: store of \<open>self.errors\<close>\<close>
  | WFlag          \<comment> \<open>line 58: \<open>self.error=1\<close>\<close>
  | WEnd           \<comment> \<open>lines 65-67: the endpoint's \<open>if self.error: pass\<close>\<close>
  | TwBlock        \<comment> \<open>line 144: the unguarded block write of \<open>test_write8\<close>\<close>
  | TwSleep        \<comment> \<open>line 145: \<open>time.sleep(0.0002)\<close>\<close>
  | Done pyval
  | Failed exc

record rthread =
  pc :: rpc
  tmp :: nat
  todo :: nat
  got :: "byte list"
  ret :: pyval
  args :: "pyval list"
  myfaults :: nat

definition rstart :: rthread where
  "rstart = \<lparr>pc = Entry, tmp = 0, todo = 0, got = [], ret = PNone, args = [], myfaults = 0\<rparr>"

definition finished :: "rthread \<Rightarrow> bool" where
  "finished t = (case pc t of Done v \<Rightarrow> True | Failed e \<Rightarrow> True | _ \<Rightarrow> False)"

text \<open>
  One statement of thread \<open>t\<close> running call \<open>c\<close>. The bytes read are kept in \<open>got\<close>, and so
  is \<open>data_array\<close> of \<open>write_pack\<close>; \<open>args\<close> holds the values \<open>play_notes\<close> passes on.
\<close>

definition rstep :: "'d smbus \<Rightarrow> call \<Rightarrow> rthread \<Rightarrow> 'd astar \<Rightarrow> rthread \<times> 'd astar" where
  "rstep B c t s =
     (let k = kind_of c in
      case pc t of
        Entry \<Rightarrow>
          (case k of
             KRead a n f z \<Rightarrow> (t\<lparr>pc := RuReset\<rparr>, s\<lparr>error := False\<rparr>)
           | KTestRead a n f \<Rightarrow> (t\<lparr>pc := RuReset\<rparr>, s)
           | KWrite a f vs \<Rightarrow> (t\<lparr>pc := Pack, args := vs\<rparr>, s\<lparr>error := False\<rparr>)
           | KNotes ns \<Rightarrow> (t\<lparr>pc := Encode\<rparr>, s\<lparr>error := False\<rparr>)
           | KTestWrite \<Rightarrow> (t\<lparr>pc := TwBlock\<rparr>, s))
      | RuReset \<Rightarrow> (t\<lparr>pc := Select\<rparr>, s\<lparr>error := False\<rparr>)
      | Select \<Rightarrow>
          (case write_byte B astar_addr (rd_addr k) (bus s) of
             (r, d) \<Rightarrow>
               (if r = None then t\<lparr>pc := SelLoad, myfaults := Suc (myfaults t)\<rparr>
                else t\<lparr>pc := Sleep\<rparr>,
                s\<lparr>bus := d, io := io s @ [EvWriteByte astar_addr (rd_addr k) (r \<noteq> None)]\<rparr>))
      | SelLoad \<Rightarrow> (t\<lparr>pc := SelStore, tmp := errors s\<rparr>, s)
      | SelStore \<Rightarrow> (t\<lparr>pc := SelFlag\<rparr>, s\<lparr>errors := Suc (tmp t)\<rparr>)
      | SelFlag \<Rightarrow> (t\<lparr>pc := Sleep\<rparr>, s\<lparr>error := True\<rparr>)
      | Sleep \<Rightarrow> (t\<lparr>pc := ReadLoop, todo := rd_n k, got := []\<rparr>, s\<lparr>io := io s @ [EvSleep 200]\<rparr>)
      | ReadLoop \<Rightarrow>
          (if todo t = 0 then (t\<lparr>pc := Unpack\<rparr>, s)
           else case read_byte B astar_addr (bus s) of
             (r, d) \<Rightarrow>
               (case r of
                  None \<Rightarrow> t\<lparr>pc := RdLoad, myfaults := Suc (myfaults t)\<rparr>
                | Some b \<Rightarrow> t\<lparr>todo := todo t - 1, got := got t @ [b]\<rparr>,
                s\<lparr>bus := d, io := io s @ [EvReadByte astar_addr r]\<rparr>))
      | RdLoad \<Rightarrow> (t\<lparr>pc := RdStore, tmp := errors s\<rparr>, s)
      | RdStore \<Rightarrow> (t\<lparr>pc := RdFlag\<rparr>, s\<lparr>errors := Suc (tmp t)\<rparr>)
      | RdFlag \<Rightarrow> (t\<lparr>pc := EpCheck, ret := PInt 0\<rparr>, s\<lparr>error := True\<rparr>)
      | Unpack \<Rightarrow>
          (case struct_unpack (rd_fmt k) (got t) of
             Inl e \<Rightarrow> (t\<lparr>pc := Failed e\<rparr>, s)
           | Inr vs \<Rightarrow> (t\<lparr>pc := EpCheck, ret := PTuple vs\<rparr>, s))
      | EpCheck \<Rightarrow> (t\<lparr>pc := Done (ep_value k (error s) (ret t))\<rparr>, s)
      | Encode \<Rightarrow>
          (case ascii_encode (notes_of k) of
             None \<Rightarrow> (t\<lparr>pc := Failed UnicodeEncodeError\<rparr>, s)
           | Some bs \<Rightarrow> (t\<lparr>pc := Pack, args := [PInt 1, PBytes bs]\<rparr>, s))
      | Pack \<Rightarrow>
          (case struct_pack (wr_fmt k) (args t) of
             Inl e \<Rightarrow> (t\<lparr>pc := Failed e\<rparr>, s)
           | Inr bs \<Rightarrow> (t\<lparr>pc := WReset, got := bs\<rparr>, s))
      | WReset \<Rightarrow> (t\<lparr>pc := Block\<rparr>, s\<lparr>error := False\<rparr>)
      | Block \<Rightarrow>
          (case write_i2c_block_data B astar_addr (wr_addr k) (got t) (bus s) of
             (r, d) \<Rightarrow>
               (if r = None then t\<lparr>pc := WLoad, myfaults := Suc (myfaults t)\<rparr>
                else t\<lparr>pc := WEnd\<rparr>,
                s\<lparr>bus := d, io := io s @ [EvWriteBlock astar_addr (wr_addr k) (got t) (r \<noteq> None)]\<rparr>))
      | WLoad \<Rightarrow> (t\<lparr>pc := WStore, tmp := errors s\<rparr>, s)
      | WStore \<Rightarrow> (t\<lparr>pc := WFlag\<rparr>, s\<lparr>errors := Suc (tmp t)\<rparr>)
      | WFlag \<Rightarrow> (t\<lparr>pc := WEnd\<rparr>, s\<lparr>error := True\<rparr>)
      | WEnd \<Rightarrow> (t\<lparr>pc := Done PNone\<rparr>, s)
      | TwBlock \<Rightarrow>
          (case write_i2c_block_data B astar_addr 0 [0, 0, 0, 0, 0, 0, 0, 0] (bus s) of
             (r, d) \<Rightarrow>
               (if r = None then t\<lparr>pc := Failed IOError, myfaults := Suc (myfaults t)\<rparr>
                else t\<lparr>pc := TwSleep\<rparr>,
                s\<lparr>bus := d, io := io s @ [EvWriteBlock astar_addr 0 [0, 0, 0, 0, 0, 0, 0, 0] (r \<noteq> None)]\<rparr>))
      | TwSleep \<Rightarrow> (t\<lparr>pc := Done PNone\<rparr>, s\<lparr>io := io s @ [EvSleep 200]\<rparr>)
      | Done v \<Rightarrow> (t, s)
      | Failed e \<Rightarrow> (t, s))"

text \<open>An upper bound on the steps left: it decreases at every step of a running thread.\<close>

fun rank :: "call \<Rightarrow> rthread \<Rightarrow> nat" where
  "rank c t =
     (let n = rd_n (kind_of c) in
      case pc t of
        Entry \<Rightarrow> n + 12 | RuReset \<Rightarrow> n + 11 | Select \<Rightarrow> n + 10
      | SelLoad \<Rightarrow> n + 9 | SelStore \<Rightarrow> n + 8 | SelFlag \<Rightarrow> n + 7
      | Sleep \<Rightarrow> n + 6 | ReadLoop \<Rightarrow> todo t + 5 | RdLoad \<Rightarrow> 4 | RdStore \<Rightarrow> 3
      | RdFlag \<Rightarrow> 2 | Unpack \<Rightarrow> 2 | EpCheck \<Rightarrow> 1
      | Encode \<Rightarrow> 8 | Pack \<Rightarrow> 7 | WReset \<Rightarrow> 6 | Block \<Rightarrow> 5 | WLoad \<Rightarrow> 4 | WStore \<Rightarrow> 3
      | WFlag \<Rightarrow> 2 | WEnd \<Rightarrow> 1 | TwBlock \<Rightarrow> 2 | TwSleep \<Rightarrow> 1
      | Done v \<Rightarrow> 0 | Failed e \<Rightarrow> 0)"

text \<open>Run a thread alone until it returns or raises. Total: the rank decreases.\<close>

function rfinish :: "'d smbus \<Rightarrow> call \<Rightarrow> rthread \<Rightarrow> 'd astar \<Rightarrow> rthread \<times> 'd astar" where
  "rfinish B c t s =
     (if finished t then (t, s)
      else case rstep B c t s of (t', s') \<Rightarrow> rfinish B c t' s')"
  by pat_completeness auto
termination
  apply (relation "measure (\<lambda>(B, c, t, s). rank c t)")
   apply simp
  apply (simp del: rank.simps)
  subgoal for B c t s
    by (cases "pc t"; cases "kind_of c")
       (auto simp: rstep_def finished_def Let_def split: prod.split option.split sum.split)
  done

text \<open>The outcome of a finished thread, as the method's caller sees it.\<close>

fun rresult :: "rthread \<times> 'd astar \<Rightarrow> (pyval, 'd astar) outcome" where
  "rresult (t, s) = (case pc t of Done v \<Rightarrow> Return v s | Failed e \<Rightarrow> Raise e s | _ \<Rightarrow> Return PNone s)"

text \<open>The control-flow graph of the machine: the program points a statement can lead to.\<close>

fun succ_pc :: "rpc \<Rightarrow> rpc \<Rightarrow> bool" where
  "succ_pc Entry q = (q = RuReset \<or> q = Pack \<or> q = Encode \<or> q = TwBlock)"
| "succ_pc RuReset q = (q = Select)"
| "succ_pc Select q = (q = SelLoad \<or> q = Sleep)"
| "succ_pc SelLoad q = (q = SelStore)"
| "succ_pc SelStore q = (q = SelFlag)"
| "succ_pc SelFlag q = (q = Sleep)"
| "succ_pc Sleep q = (q = ReadLoop)"
| "succ_pc ReadLoop q = (q = Unpack \<or> q = RdLoad \<or> q = ReadLoop)"
| "succ_pc RdLoad q = (q = RdStore)"
| "succ_pc RdStore q = (q = RdFlag)"
| "succ_pc RdFlag q = (q = EpCheck)"
| "succ_pc Unpack q = (case q of EpCheck \<Rightarrow> True | Failed e \<Rightarrow> True | _ \<Rightarrow> False)"
| "succ_pc EpCheck q = (case q of Done v \<Rightarrow> True | _ \<Rightarrow> False)"
| "succ_pc Encode q = (case q of Pack \<Rightarrow> True | Failed e \<Rightarrow> True | _ \<Rightarrow> False)"
| "succ_pc Pack q = (case q of WReset \<Rightarrow> True | Failed e \<Rightarrow> True | _ \<Rightarrow> False)"
| "succ_pc WReset q = (q = Block)"
| "succ_pc Block q = (q = WLoad \<or> q = WEnd)"
| "succ_pc WLoad q = (q = WStore)"
| "succ_pc WStore q = (q = WFlag)"
| "succ_pc WFlag q = (q = WEnd)"
| "succ_pc WEnd q = (case q of Done v \<Rightarrow> True | _ \<Rightarrow> False)"
| "succ_pc TwBlock q = (case q of TwSleep \<Rightarrow> True | Failed e \<Rightarrow> True | _ \<Rightarrow> False)"
| "succ_pc TwSleep q = (case q of Done v \<Rightarrow> True | _ \<Rightarrow> False)"
| "succ_pc (Done v) q = (q = Done v)"
| "succ_pc (Failed e) q = (q = Failed e)"

text \<open>
  The program of each kind of method: the program points its thread can be at. Reads run
  \<open>read_unpack\<close>'s statements and the endpoint check, writes run \<open>write_pack\<close>'s (and
  \<open>play_notes\<close> its encoding first), \<open>test_write8\<close> its two statements.
\<close>

fun is_reader :: "ckind \<Rightarrow> bool" where
  "is_reader (KRead a n f z) = True"
| "is_reader (KTestRead a n f) = True"
| "is_reader k = False"

fun is_writer :: "ckind \<Rightarrow> bool" where
  "is_writer (KWrite a f vs) = True"
| "is_writer (KNotes ns) = True"
| "is_writer k = False"

definition pc_ok :: "ckind \<Rightarrow> rpc \<Rightarrow> bool" where
  "pc_ok k p =
     (case p of
        Entry \<Rightarrow> True | Done v \<Rightarrow> True | Failed e \<Rightarrow> True
      | Encode \<Rightarrow> (case k of KNotes ns \<Rightarrow> True | _ \<Rightarrow> False)
      | TwBlock \<Rightarrow> k = KTestWrite | TwSleep \<Rightarrow> k = KTestWrite
      | Pack \<Rightarrow> is_writer k | WReset \<Rightarrow> is_writer k | Block \<Rightarrow> is_writer k | WLoad \<Rightarrow> is_writer k
      | WStore \<Rightarrow> is_writer k | WFlag \<Rightarrow> is_writer k | WEnd \<Rightarrow> is_writer k
      | _ \<Rightarrow> is_reader k)"

section \<open>Lemmas: one thread alone\<close>

declare rfinish.simps [simp del]

lemma rstep_rank:
  "\<not> finished t \<Longrightarrow> rank c (fst (rstep B c t s)) < rank c t"
  by (cases "pc t"; cases "kind_of c")
     (auto simp: rstep_def finished_def Let_def split: prod.split option.split sum.split)

lemma rstep_succ_pc:
  "succ_pc (pc t) (pc (fst (rstep B c t s)))"
  by (cases "pc t"; cases "kind_of c")
     (auto simp: rstep_def Let_def split: prod.split option.split sum.split)

lemma rstep_pc_ok:
  "pc_ok (kind_of c) (pc t) \<Longrightarrow> pc_ok (kind_of c) (pc (fst (rstep B c t s)))"
  by (cases "pc t"; cases "kind_of c")
     (auto simp: rstep_def pc_ok_def Let_def split: prod.split option.split sum.split)

lemma rfinish_unfold:
  "\<not> finished t \<Longrightarrow> rfinish B c t s = rfinish B c (fst (rstep B c t s)) (snd (rstep B c t s))"
  by (subst rfinish.simps) (simp add: case_prod_beta)

lemma rfinish_finished:
  "finished t \<Longrightarrow> rfinish B c t s = (t, s)"
  by (subst rfinish.simps) simp

lemma rfinish_unfold_straight:
  "\<not> finished t \<Longrightarrow> pc t \<noteq> ReadLoop \<Longrightarrow>
   rfinish B c t s = rfinish B c (fst (rstep B c t s)) (snd (rstep B c t s))"
  by (rule rfinish_unfold)

lemmas rfinish_eval = rfinish_unfold rfinish_finished rstep_def finished_def Let_def

text \<open>The byte-read loop of the machine is the comprehension \<open>read_bytes\<close> of the engine.\<close>

lemma rfinish_readloop:
  "pc t = ReadLoop \<Longrightarrow> rresult (rfinish B c t s) =
     (case read_bytes B (todo t) s of
        (None, s4) \<Rightarrow> Return (ep_value (kind_of c) True (PInt 0)) (note_error s4)
      | (Some bs, s4) \<Rightarrow>
          (case struct_unpack (rd_fmt (kind_of c)) (got t @ bs) of
             Inl e \<Rightarrow> Raise e s4
           | Inr vs \<Rightarrow> Return (ep_value (kind_of c) (error s4) (PTuple vs)) s4))"
proof (induction "todo t" arbitrary: t s)
  case 0
  then show ?case by (simp add: rfinish_eval split: sum.split)
next
  case (Suc k)
  obtain r d where rb: "read_byte B astar_addr (bus s) = (r, d)" by fastforce
  show ?case
  proof (cases r)
    case None
    with Suc.prems Suc.hyps(2) [symmetric] rb show ?thesis
      by (simp add: rfinish_eval note_error_def)
  next
    case (Some b)
    let ?t = "t\<lparr>todo := k, got := got t @ [b]\<rparr>"
    let ?s = "s\<lparr>bus := d, io := io s @ [EvReadByte astar_addr (Some b)]\<rparr>"
    have "rfinish B c t s = rfinish B c ?t ?s"
      using Suc.prems Suc.hyps(2) [symmetric] rb Some
      by (subst rfinish_unfold) (simp_all add: rstep_def finished_def)
    moreover have "rresult (rfinish B c ?t ?s) = (case read_bytes B k ?s of
        (None, s4) \<Rightarrow> Return (ep_value (kind_of c) True (PInt 0)) (note_error s4)
      | (Some bs, s4) \<Rightarrow>
          (case struct_unpack (rd_fmt (kind_of c)) (got ?t @ bs) of
             Inl e \<Rightarrow> Raise e s4
           | Inr vs \<Rightarrow> Return (ep_value (kind_of c) (error s4) (PTuple vs)) s4))"
      using Suc.hyps(1) [of ?t ?s] Suc.prems by simp
    ultimately show ?thesis
      using Suc.hyps(2) [symmetric] rb Some by (simp split: prod.split option.split)
  qed
qed

text \<open>From the reset of \<open>read_unpack\<close> on, the machine is \<open>read_unpack\<close> followed by the
  method's use of its value.\<close>

lemma rfinish_from_reset:
  "pc t = RuReset \<Longrightarrow> rresult (rfinish B c t s) =
     (case read_unpack B (rd_addr (kind_of c)) (rd_n (kind_of c)) (rd_fmt (kind_of c)) s of
        Raise e s' \<Rightarrow> Raise e s'
      | Return v s' \<Rightarrow> Return (ep_value (kind_of c) (error s') v) s')"
proof -
  assume p: "pc t = RuReset"
  obtain r d where w: "write_byte B astar_addr (rd_addr (kind_of c)) (bus s) = (r, d)" by fastforce
  show ?thesis
    using p w
    by (cases r)
       (simp_all add: rfinish_unfold_straight rfinish_readloop rstep_def finished_def
          read_unpack_def note_error_def Let_def split: prod.split option.split sum.split)
qed

lemma rfinish_entry:
  "\<not> finished t \<Longrightarrow> rstep B c t s = (t', s') \<Longrightarrow> rfinish B c t s = rfinish B c t' s'"
  by (subst rfinish_unfold) simp_all

lemma rfinish_read_call:
  assumes "kind_of c = KRead a n f z"
  shows "rresult (rfinish B c rstart s) = checked_read B a n f z s"
proof -
  have "rfinish B c rstart s = rfinish B c (rstart\<lparr>pc := RuReset\<rparr>) (s\<lparr>error := False\<rparr>)"
    using assms by (intro rfinish_entry) (simp_all add: rstart_def rstep_def finished_def)
  then show ?thesis
    using assms rfinish_from_reset [of "rstart\<lparr>pc := RuReset\<rparr>" B c "s\<lparr>error := False\<rparr>"]
    by (simp add: checked_read_def split: outcome.split)
qed

lemma rfinish_test_read_call:
  assumes "kind_of c = KTestRead a n f"
  shows "rresult (rfinish B c rstart s) =
     (case read_unpack B a n f s of Raise e s' \<Rightarrow> Raise e s' | Return v s' \<Rightarrow> Return PNone s')"
proof -
  have "rfinish B c rstart s = rfinish B c (rstart\<lparr>pc := RuReset\<rparr>) s"
    using assms by (intro rfinish_entry) (simp_all add: rstart_def rstep_def finished_def)
  then show ?thesis
    using assms rfinish_from_reset [of "rstart\<lparr>pc := RuReset\<rparr>" B c s]
    by (simp split: outcome.split)
qed

lemma rfinish_write_call:
  assumes "kind_of c = KWrite a f vs"
  shows "rresult (rfinish B c rstart s) = write_pack B a f vs (s\<lparr>error := False\<rparr>)"
proof -
  obtain r d where w: "write_i2c_block_data B astar_addr a (projr (struct_pack f vs)) (bus s) = (r, d)"
    by fastforce
  show ?thesis
    using assms w
    by (cases "struct_pack f vs"; cases r)
       (simp_all add: rfinish_unfold_straight rfinish_finished rstart_def rstep_def finished_def
          write_pack_def note_error_def Let_def)
qed

lemma rfinish_notes_call:
  assumes "kind_of c = KNotes ns"
  shows "rresult (rfinish B c rstart s) = play_notes B ns s"
proof (cases "ascii_encode ns")
  case None
  with assms show ?thesis
    by (simp add: rfinish_unfold_straight rfinish_finished rstart_def rstep_def finished_def
        play_notes_def)
next
  case (Some bs)
  obtain r d where
    w: "write_i2c_block_data B astar_addr 24 (projr (struct_pack ''B15s'' [PInt 1, PBytes bs])) (bus s) = (r, d)"
    by fastforce
  show ?thesis
    using assms Some w
    by (cases "struct_pack ''B15s'' [PInt 1, PBytes bs]"; cases r)
       (simp_all add: rfinish_unfold_straight rfinish_finished rstart_def rstep_def finished_def
          play_notes_def write_pack_def note_error_def Let_def)
qed

lemma rfinish_test_write_call:
  assumes "kind_of c = KTestWrite"
  shows "rresult (rfinish B c rstart s) = test_write8 B s"
proof -
  obtain r d where w: "write_i2c_block_data B astar_addr 0 [0, 0, 0, 0, 0, 0, 0, 0] (bus s) = (r, d)"
    by fastforce
  show ?thesis
    using assms w
    by (cases r)
       (simp_all add: rfinish_unfold_straight rfinish_finished rstart_def rstep_def finished_def
          test_write8_def Let_def)
qed

lemma rfinish_refines:
  "rresult (rfinish B c rstart s) = astar_call B c s"
proof (cases c)
  case (Leds r y g)
  then show ?thesis by (simp add: rfinish_write_call leds_def)
next
  case (PlayNotes n)
  then show ?thesis by (simp add: rfinish_notes_call)
next
  case (Motors l r)
  then show ?thesis by (simp add: rfinish_write_call motors_def)
next
  case ReadButtons
  then show ?thesis by (simp add: rfinish_read_call read_buttons_def)
next
  case ReadBatteryMillivolts
  then show ?thesis by (simp add: rfinish_read_call read_battery_millivolts_def)
next
  case ReadAnalog
  then show ?thesis by (simp add: rfinish_read_call read_analog_def)
next
  case ReadEncoders
  then show ?thesis by (simp add: rfinish_read_call read_encoders_def)
next
  case TestRead8
  then show ?thesis by (simp add: rfinish_test_read_call test_read8_def)
next
  case TestRead32
  then show ?thesis by (simp add: rfinish_test_read_call test_read32_def)
next
  case TestWrite8
  then show ?thesis by (simp add: rfinish_test_write_call)
qed

end
