(* ===== verification/Interleave.thy ===== *)
theory Interleave
  imports Prelude Struct Bus Engine Endpoints Machine
begin

text \<open>
  Concurrent use of one \<open>AStar\<close> object (spec section 5): threads, each running one
  method as the statement-level machine of \<open>Machine\<close>, share the object's state. The
  relation \<open>cstep\<close> interleaves them under one of three disciplines: no lock (the code as
  written), the lock of spec section 5 around the engine's transaction (\<open>read_unpack\<close>
  from its reset, \<open>write_pack\<close> from its \<open>struct.pack\<close>), or a lock around the whole
  method call.

  Under the call lock a read endpoint returns its sentinel exactly when one of its own bus
  calls failed, and the counter is exact. Under the engine lock the counter is still exact,
  since \<open>self.errors+=1\<close> runs inside the transaction, but the flag is not: a thread can
  return its sentinel although its own bus calls succeeded. With no lock a thread can read
  another register, and a failure can be lost from the counter.
\<close>

section \<open>Locks\<close>

text \<open>
  \<open>locked lk p\<close>: the statement at \<open>p\<close> runs under the lock; \<open>is_entry lk p\<close>: running
  it acquires the lock; a thread at a locked point past the entry \<open>holds\<close> the lock. A
  thread may run a locked statement only when no other thread holds the lock.
\<close>

datatype lock = NoLock | EngineLock | CallLock

fun locked :: "lock \<Rightarrow> rpc \<Rightarrow> bool" where
  "locked NoLock p = False"
| "locked EngineLock p =
     (case p of
        RuReset \<Rightarrow> True | Select \<Rightarrow> True | SelLoad \<Rightarrow> True | SelStore \<Rightarrow> True | SelFlag \<Rightarrow> True
      | Sleep \<Rightarrow> True | ReadLoop \<Rightarrow> True | RdLoad \<Rightarrow> True | RdStore \<Rightarrow> True | RdFlag \<Rightarrow> True
      | Unpack \<Rightarrow> True | Pack \<Rightarrow> True | WReset \<Rightarrow> True | Block \<Rightarrow> True | WLoad \<Rightarrow> True
      | WStore \<Rightarrow> True | WFlag \<Rightarrow> True | _ \<Rightarrow> False)"
| "locked CallLock p = (case p of Done v \<Rightarrow> False | Failed e \<Rightarrow> False | _ \<Rightarrow> True)"

fun is_entry :: "lock \<Rightarrow> rpc \<Rightarrow> bool" where
  "is_entry NoLock p = False"
| "is_entry EngineLock p = (p = RuReset \<or> p = Pack)"
| "is_entry CallLock p = (p = Entry)"

definition holds :: "lock \<Rightarrow> rpc \<Rightarrow> bool" where
  "holds lk p = (locked lk p \<and> \<not> is_entry lk p)"

definition may_step :: "lock \<Rightarrow> rthread list \<Rightarrow> nat \<Rightarrow> bool" where
  "may_step lk ts i =
     (locked lk (pc (ts ! i)) \<longrightarrow> list_all (\<lambda>j. j = i \<or> \<not> holds lk (pc (ts ! j))) [0..<length ts])"

section \<open>Interleaving\<close>

text \<open>One step of the system: a running thread that may proceed runs one statement of its call.\<close>

inductive cstep :: "lock \<Rightarrow> 'd smbus \<Rightarrow> call list \<Rightarrow> rthread list \<times> 'd astar \<Rightarrow> rthread list \<times> 'd astar \<Rightarrow> bool"
  for lk B cs where
  step: "i < length ts \<Longrightarrow> i < length cs \<Longrightarrow> \<not> finished (ts ! i) \<Longrightarrow> may_step lk ts i \<Longrightarrow>
         rstep B (cs ! i) (ts ! i) s = (t', s') \<Longrightarrow> cstep lk B cs (ts, s) (ts[i := t'], s')"

definition cinit :: "call list \<Rightarrow> 'd astar \<Rightarrow> rthread list \<times> 'd astar" where
  "cinit cs s = (map (\<lambda>c. rstart) cs, s)"

text \<open>An explicit schedule: the thread to run at each step (a thread that cannot run is skipped).\<close>

fun csched :: "lock \<Rightarrow> 'd smbus \<Rightarrow> call list \<Rightarrow> nat list \<Rightarrow> rthread list \<times> 'd astar \<Rightarrow> rthread list \<times> 'd astar" where
  "csched lk B cs [] c = c"
| "csched lk B cs (i # js) (ts, s) =
     (if i < length ts \<and> i < length cs \<and> \<not> finished (ts ! i) \<and> may_step lk ts i
      then csched lk B cs js (ts[i := fst (rstep B (cs ! i) (ts ! i) s)], snd (rstep B (cs ! i) (ts ! i) s))
      else csched lk B cs js (ts, s))"


section \<open>Invariants of the locks\<close>

fun is_tuple :: "pyval \<Rightarrow> bool" where
  "is_tuple (PTuple vs) = True"
| "is_tuple v = False"

text \<open>\<open>pend\<close>: a thread between its failed bus call and the store of the incremented counter.\<close>

definition pend :: "rthread \<Rightarrow> nat" where
  "pend t =
     (case pc t of
        SelLoad \<Rightarrow> 1 | SelStore \<Rightarrow> 1 | RdLoad \<Rightarrow> 1 | RdStore \<Rightarrow> 1 | WLoad \<Rightarrow> 1 | WStore \<Rightarrow> 1
      | _ \<Rightarrow> 0)"

definition tinv :: "call \<Rightarrow> rthread \<Rightarrow> bool" where
  "tinv c t = (pc_ok (kind_of c) (pc t) \<and>
     (case pc t of
        Entry \<Rightarrow> myfaults t = 0 | RuReset \<Rightarrow> myfaults t = 0
      | SelLoad \<Rightarrow> 0 < myfaults t | SelStore \<Rightarrow> 0 < myfaults t | SelFlag \<Rightarrow> 0 < myfaults t
      | RdLoad \<Rightarrow> 0 < myfaults t | RdStore \<Rightarrow> 0 < myfaults t | RdFlag \<Rightarrow> 0 < myfaults t
      | WLoad \<Rightarrow> 0 < myfaults t | WStore \<Rightarrow> 0 < myfaults t | WFlag \<Rightarrow> 0 < myfaults t
      | EpCheck \<Rightarrow> (myfaults t = 0 \<longrightarrow> is_tuple (ret t))
      | Done v \<Rightarrow> (case kind_of c of KRead a n f z \<Rightarrow> (v = z) = (0 < myfaults t) | _ \<Rightarrow> True)
      | _ \<Rightarrow> True))"

definition ainv :: "rthread \<Rightarrow> 'd astar \<Rightarrow> bool" where
  "ainv t s =
     (case pc t of
        Select \<Rightarrow> error s = (0 < myfaults t) | Sleep \<Rightarrow> error s = (0 < myfaults t)
      | ReadLoop \<Rightarrow> error s = (0 < myfaults t) | Unpack \<Rightarrow> error s = (0 < myfaults t)
      | EpCheck \<Rightarrow> error s = (0 < myfaults t)
      | SelStore \<Rightarrow> tmp t = errors s | RdStore \<Rightarrow> tmp t = errors s | WStore \<Rightarrow> tmp t = errors s
      | _ \<Rightarrow> True)"

definition cinv :: "call list \<Rightarrow> nat \<Rightarrow> rthread list \<times> 'd astar \<Rightarrow> bool" where
  "cinv cs e0 c =
     (case c of (ts, s) \<Rightarrow>
        length ts = length cs \<and>
        (\<forall>i<length ts. tinv (cs ! i) (ts ! i)) \<and>
        (\<forall>i<length ts. holds CallLock (pc (ts ! i)) \<longrightarrow> ainv (ts ! i) s) \<and>
        errors s + sum_list (map pend ts) = e0 + sum_list (map myfaults ts))"

text \<open>
  The counter under a lock: a thread about to store its incremented copy of \<open>errors\<close>
  still holds the current value.
\<close>

fun is_store :: "rpc \<Rightarrow> bool" where
  "is_store SelStore = True"
| "is_store RdStore = True"
| "is_store WStore = True"
| "is_store p = False"

definition store_ok :: "rthread \<Rightarrow> 'd astar \<Rightarrow> bool" where
  "store_ok t s = (is_store (pc t) \<longrightarrow> tmp t = errors s)"

definition kinv :: "call list \<Rightarrow> nat \<Rightarrow> nat \<Rightarrow> rthread list \<times> 'd astar \<Rightarrow> bool" where
  "kinv cs e0 f0 c =
     (case c of (ts, s) \<Rightarrow>
        length ts = length cs \<and>
        (\<forall>i<length ts. pc_ok (kind_of (cs ! i)) (pc (ts ! i)) \<and> store_ok (ts ! i) s) \<and>
        errors s + sum_list (map pend ts) = e0 + sum_list (map myfaults ts) \<and>
        io_faults (io s) = f0 + sum_list (map myfaults ts))"


section \<open>Scenarios\<close>

text \<open>
  Slaves whose registers hold the buttons \<open>1, 0, 1\<close> at 3-5 (and 10000 mV at 10-11), and a
  schedule: thread 0 runs to its endpoint check, thread 1 runs six statements, thread 0
  finishes, thread 1 finishes.
\<close>

definition race_sim :: sim where
  "race_sim = \<lparr>mem = [0, 0, 0, 1, 0, 1], ptr = 0, faults = [False, False, False, False, True]\<rparr>"

definition regs_sim :: sim where
  "regs_sim = \<lparr>mem = [0, 0, 0, 1, 0, 1, 0, 0, 0, 0, 0x10, 0x27], ptr = 0, faults = []\<rparr>"

definition race_schedule :: "nat list" where
  "race_schedule = replicate 9 0 @ replicate 6 1 @ [0] @ replicate 20 1"

section \<open>Lemmas: schedules and races\<close>

inductive_cases cstep_cases: "cstep lk B cs c c'"

lemma csched_reach:
  "(cstep lk B cs)\<^sup>*\<^sup>* c (csched lk B cs js c)"
proof (induction js arbitrary: c)
  case Nil
  then show ?case by simp
next
  case (Cons i js)
  obtain ts s where c: "c = (ts, s)" by fastforce
  show ?case
  proof (cases "i < length ts \<and> i < length cs \<and> \<not> finished (ts ! i) \<and> may_step lk ts i")
    case True
    then have "cstep lk B cs (ts, s)
        (ts[i := fst (rstep B (cs ! i) (ts ! i) s)], snd (rstep B (cs ! i) (ts ! i) s))"
      by (intro cstep.step) simp_all
    with Cons.IH True show ?thesis
      unfolding c by (simp add: converse_rtranclp_into_rtranclp)
  next
    case False
    show ?thesis
      unfolding c by (subst csched.simps, subst if_not_P [OF False]) (rule Cons.IH)
  qed
qed

text \<open>
  C20 (the spec's lock is not enough). With the lock of spec section 5 around the engine's
  transaction, two concurrent \<open>read_buttons\<close> calls can end with thread 0 returning its
  sentinel although none of its own bus calls failed: the other thread's failure sets the
  shared flag between thread 0's transaction and its endpoint's test of the flag.
\<close>

theorem engine_lock_flag_race:
  "\<exists>ts s. (cstep EngineLock sim_bus [ReadButtons, ReadButtons])\<^sup>*\<^sup>*
       (cinit [ReadButtons, ReadButtons] (astar_init race_sim)) (ts, s) \<and>
     pc (ts ! 0) = Done (PList [PInt 0, PInt 0, PInt 0]) \<and> myfaults (ts ! 0) = 0"
proof -
  let ?c = "csched EngineLock sim_bus [ReadButtons, ReadButtons] race_schedule
    (cinit [ReadButtons, ReadButtons] (astar_init race_sim))"
  have r: "(cstep EngineLock sim_bus [ReadButtons, ReadButtons])\<^sup>*\<^sup>*
       (cinit [ReadButtons, ReadButtons] (astar_init race_sim)) ?c"
    by (rule csched_reach)
  have "pc (fst ?c ! 0) = Done (PList [PInt 0, PInt 0, PInt 0]) \<and> myfaults (fst ?c ! 0) = 0"
    by code_simp
  with r show ?thesis by (metis prod.collapse)
qed

text \<open>
  C22 (wrong register, no error). Without a lock, another thread's select can move the
  slave's register pointer between a thread's select and its reads: \<open>read_buttons\<close>
  returns \<open>(True, True, False)\<close> read from the battery registers (the buttons hold
  \<open>1, 0, 1\<close>), \<open>read_battery_millivolts\<close> returns 0 mV, and no error is flagged or
  counted.
\<close>

theorem unlocked_wrong_register:
  "\<exists>ts s. (cstep NoLock sim_bus [ReadButtons, ReadBatteryMillivolts])\<^sup>*\<^sup>*
       (cinit [ReadButtons, ReadBatteryMillivolts] (astar_init regs_sim)) (ts, s) \<and>
     pc (ts ! 0) = Done (PTuple [PBool True, PBool True, PBool False]) \<and>
     pc (ts ! 1) = Done (PTuple [PInt 0]) \<and> errors s = 0 \<and> io_faults (io s) = 0"
proof -
  let ?c = "csched NoLock sim_bus [ReadButtons, ReadBatteryMillivolts]
    ([0, 0, 0, 1, 1, 1] @ replicate 12 0 @ replicate 12 1)
    (cinit [ReadButtons, ReadBatteryMillivolts] (astar_init regs_sim))"
  have r: "(cstep NoLock sim_bus [ReadButtons, ReadBatteryMillivolts])\<^sup>*\<^sup>*
       (cinit [ReadButtons, ReadBatteryMillivolts] (astar_init regs_sim)) ?c"
    by (rule csched_reach)
  have "pc (fst ?c ! 0) = Done (PTuple [PBool True, PBool True, PBool False]) \<and>
     pc (fst ?c ! 1) = Done (PTuple [PInt 0]) \<and> errors (snd ?c) = 0 \<and> io_faults (io (snd ?c)) = 0"
    by code_simp
  with r show ?thesis by (metis prod.collapse)
qed

text \<open>
  C23 (lost update). Without a lock, two failed selects can be counted once:
  \<open>self.errors+=1\<close> is a load and a store, and both threads load before either stores.
  The log holds two failed bus calls and \<open>errors\<close> is 1.
\<close>

theorem unlocked_lost_update:
  "\<exists>ts s. (cstep NoLock sim_bus [ReadButtons, ReadButtons])\<^sup>*\<^sup>*
       (cinit [ReadButtons, ReadButtons] (astar_init \<lparr>mem = [0, 0, 0, 1, 0, 1], ptr = 0, faults = [True, True]\<rparr>)) (ts, s) \<and>
     list_all finished ts \<and> errors s = 1 \<and> io_faults (io s) = 2"
proof -
  let ?c = "csched NoLock sim_bus [ReadButtons, ReadButtons]
    ([0, 0, 0, 0, 1, 1, 1, 1, 1, 0] @ replicate 12 0 @ replicate 12 1)
    (cinit [ReadButtons, ReadButtons] (astar_init \<lparr>mem = [0, 0, 0, 1, 0, 1], ptr = 0, faults = [True, True]\<rparr>))"
  have r: "(cstep NoLock sim_bus [ReadButtons, ReadButtons])\<^sup>*\<^sup>*
       (cinit [ReadButtons, ReadButtons] (astar_init \<lparr>mem = [0, 0, 0, 1, 0, 1], ptr = 0, faults = [True, True]\<rparr>)) ?c"
    by (rule csched_reach)
  have "list_all finished (fst ?c) \<and> errors (snd ?c) = 1 \<and> io_faults (io (snd ?c)) = 2"
    by code_simp
  with r show ?thesis by (metis prod.collapse)
qed

section \<open>Lemmas: the call lock keeps the contract\<close>

lemma sum_list_map_update:
  "i < length xs \<Longrightarrow> sum_list (map f (xs[i := x])) + f (xs ! i) = sum_list (map f xs) + (f x :: nat)"
  by (induction xs arbitrary: i) (auto split: nat.split)

lemma read_sentinel_not_tuple:
  "kind_of c = KRead a n f z \<Longrightarrow> \<not> is_tuple z"
  by (cases c) auto

lemma rstep_tinv:
  assumes "tinv c t" and "\<not> finished t" and "kind_of c \<noteq> KTestWrite"
    and "holds CallLock (pc t) \<longrightarrow> ainv t s" and "rstep B c t s = (t', s')"
  shows "tinv c t' \<and> (holds CallLock (pc t') \<longrightarrow> ainv t' s') \<and>
         errors s' + pend t' + myfaults t = errors s + pend t + myfaults t'"
  using assms read_sentinel_not_tuple [of c]
  by (cases "pc t"; cases "kind_of c")
     (auto simp: rstep_def tinv_def ainv_def pend_def holds_def finished_def pc_ok_def Let_def
        split: prod.splits option.splits sum.splits if_splits)

lemma kind_test_write:
  "(kind_of c = KTestWrite) = (c = TestWrite8)"
  by (cases c) auto

lemma cinv_init:
  "cinv cs (errors s0) (cinit cs s0)"
  by (simp add: cinv_def cinit_def rstart_def tinv_def holds_def pend_def pc_ok_def comp_def)

lemma cinv_step:
  assumes "cstep CallLock B cs c c'" and "cinv cs e0 c" and "TestWrite8 \<notin> set cs"
  shows "cinv cs e0 c'"
  using assms(1)
proof (rule cstep_cases)
  fix i ts s t' s'
  assume eqs: "c = (ts, s)" "c' = (ts[i := t'], s')" and i: "i < length ts" "i < length cs"
    and nf: "\<not> finished (ts ! i)" and ms: "may_step CallLock ts i"
    and r: "rstep B (cs ! i) (ts ! i) s = (t', s')"
  from assms(2) eqs have len: "length ts = length cs"
    and T: "\<forall>j<length ts. tinv (cs ! j) (ts ! j)"
    and A: "\<forall>j<length ts. holds CallLock (pc (ts ! j)) \<longrightarrow> ainv (ts ! j) s"
    and E: "errors s + sum_list (map pend ts) = e0 + sum_list (map myfaults ts)"
    by (simp_all add: cinv_def)
  from assms(3) nth_mem [OF i(2)] have ntw: "kind_of (cs ! i) \<noteq> KTestWrite"
    by (auto simp: kind_test_write)
  from rstep_tinv [OF _ nf ntw _ r] T A i
  have loc: "tinv (cs ! i) t' \<and> (holds CallLock (pc t') \<longrightarrow> ainv t' s') \<and>
      errors s' + pend t' + myfaults (ts ! i) = errors s + pend (ts ! i) + myfaults t'"
    by blast
  have "locked CallLock (pc (ts ! i))"
    using nf by (simp add: finished_def split: rpc.splits)
  with ms have others: "\<forall>j<length ts. j \<noteq> i \<longrightarrow> \<not> holds CallLock (pc (ts ! j))"
    by (auto simp: may_step_def list_all_iff)
  have "errors s' + sum_list (map pend (ts[i := t'])) = e0 + sum_list (map myfaults (ts[i := t']))"
    using sum_list_map_update [OF i(1), of pend t'] sum_list_map_update [OF i(1), of myfaults t']
      E loc by linarith
  with len T loc others i show "cinv cs e0 c'"
    unfolding eqs cinv_def by (auto simp: nth_list_update)
qed

lemma cinv_reach:
  assumes "(cstep CallLock B cs)\<^sup>*\<^sup>* (cinit cs s0) c" and "TestWrite8 \<notin> set cs"
  shows "cinv cs (errors s0) c"
  using assms(1)
proof (induction rule: rtranclp_induct)
  case base
  then show ?case by (rule cinv_init)
next
  case (step c c')
  then show ?case using cinv_step [OF _ _ assms(2)] by blast
qed

lemma pend_finished:
  "list_all finished ts \<Longrightarrow> sum_list (map pend ts) = 0"
  by (induction ts) (auto simp: pend_def finished_def split: rpc.splits)

text \<open>
  C19 (a lock around the call restores the contract). Under a lock held for the whole
  method call, in every reachable state of any number of concurrent calls (all methods
  but \<open>test_write8\<close>) on any bus, a read endpoint that has returned returned its sentinel
  exactly when one of its own bus calls failed, and once all threads have returned,
  \<open>errors\<close> has grown by exactly the number of their failed bus calls.
\<close>

theorem call_lock_safe:
  assumes "(cstep CallLock B cs)\<^sup>*\<^sup>* (cinit cs s0) (ts, s)" and "TestWrite8 \<notin> set cs"
  shows "(\<forall>i<length ts. \<forall>v. pc (ts ! i) = Done v \<longrightarrow>
            (case kind_of (cs ! i) of KRead a n f z \<Rightarrow> (v = z) = (0 < myfaults (ts ! i)) | _ \<Rightarrow> True)) \<and>
         (list_all finished ts \<longrightarrow> errors s = errors s0 + sum_list (map myfaults ts))"
proof -
  from cinv_reach [OF assms] have
    T: "\<forall>i<length ts. tinv (cs ! i) (ts ! i)"
    and E: "errors s + sum_list (map pend ts) = errors s0 + sum_list (map myfaults ts)"
    by (simp_all add: cinv_def)
  from T have "\<forall>i<length ts. \<forall>v. pc (ts ! i) = Done v \<longrightarrow>
      (case kind_of (cs ! i) of KRead a n f z \<Rightarrow> (v = z) = (0 < myfaults (ts ! i)) | _ \<Rightarrow> True)"
    by (auto simp: tinv_def)
  moreover have "list_all finished ts \<longrightarrow> errors s = errors s0 + sum_list (map myfaults ts)"
  proof
    assume "list_all finished ts"
    then have "sum_list (map pend ts) = 0" by (rule pend_finished)
    with E show "errors s = errors s0 + sum_list (map myfaults ts)" by linarith
  qed
  ultimately show ?thesis by blast
qed

theorem call_lock_safe_witness:
  "(cstep CallLock sim_bus [ReadButtons, ReadButtons])\<^sup>*\<^sup>* (cinit [ReadButtons, ReadButtons] (astar_init race_sim))
     (fst (csched CallLock sim_bus [ReadButtons, ReadButtons] race_schedule (cinit [ReadButtons, ReadButtons] (astar_init race_sim))),
      snd (csched CallLock sim_bus [ReadButtons, ReadButtons] race_schedule (cinit [ReadButtons, ReadButtons] (astar_init race_sim)))) \<and>
   TestWrite8 \<notin> set [ReadButtons, ReadButtons] \<and>
   pc (fst (csched CallLock sim_bus [ReadButtons, ReadButtons] race_schedule (cinit [ReadButtons, ReadButtons] (astar_init race_sim))) ! 0)
     = Done (PTuple [PBool True, PBool False, PBool True]) \<and>
   (PTuple [PBool True, PBool False, PBool True] = PList [PInt 0, PInt 0, PInt 0]) =
     (0 < myfaults (fst (csched CallLock sim_bus [ReadButtons, ReadButtons] race_schedule (cinit [ReadButtons, ReadButtons] (astar_init race_sim))) ! 0)) \<and>
   pc (fst (csched CallLock sim_bus [ReadButtons, ReadButtons] race_schedule (cinit [ReadButtons, ReadButtons] (astar_init race_sim))) ! 1)
     = Done (PList [PInt 0, PInt 0, PInt 0]) \<and>
   (PList [PInt 0, PInt 0, PInt 0] = PList [PInt 0, PInt 0, PInt 0]) =
     (0 < myfaults (fst (csched CallLock sim_bus [ReadButtons, ReadButtons] race_schedule (cinit [ReadButtons, ReadButtons] (astar_init race_sim))) ! 1)) \<and>
   list_all finished (fst (csched CallLock sim_bus [ReadButtons, ReadButtons] race_schedule (cinit [ReadButtons, ReadButtons] (astar_init race_sim)))) \<and>
   errors (snd (csched CallLock sim_bus [ReadButtons, ReadButtons] race_schedule (cinit [ReadButtons, ReadButtons] (astar_init race_sim)))) =
     errors (astar_init race_sim) +
     sum_list (map myfaults (fst (csched CallLock sim_bus [ReadButtons, ReadButtons] race_schedule (cinit [ReadButtons, ReadButtons] (astar_init race_sim)))))"
proof -
  define C where "C = csched CallLock sim_bus [ReadButtons, ReadButtons] race_schedule
    (cinit [ReadButtons, ReadButtons] (astar_init race_sim))"
  have r: "(cstep CallLock sim_bus [ReadButtons, ReadButtons])\<^sup>*\<^sup>*
      (cinit [ReadButtons, ReadButtons] (astar_init race_sim)) (fst C, snd C)"
    unfolding C_def prod.collapse by (rule csched_reach)
  have l: "TestWrite8 \<notin> set [ReadButtons, ReadButtons]" by simp
  have p: "pc (fst C ! 0) = Done (PTuple [PBool True, PBool False, PBool True]) \<and>
      pc (fst C ! 1) = Done (PList [PInt 0, PInt 0, PInt 0]) \<and> length (fst C) = 2 \<and> list_all finished (fst C)"
    unfolding C_def by code_simp
  from call_lock_safe [OF r l] have
    A: "\<forall>i<length (fst C). \<forall>v. pc (fst C ! i) = Done v \<longrightarrow>
          (case kind_of ([ReadButtons, ReadButtons] ! i) of
             KRead a n f z \<Rightarrow> (v = z) = (0 < myfaults (fst C ! i)) | _ \<Rightarrow> True)"
    and E: "list_all finished (fst C) \<longrightarrow>
          errors (snd C) = errors (astar_init race_sim) + sum_list (map myfaults (fst C))"
    by blast+
  from p A [rule_format, of 0 "PTuple [PBool True, PBool False, PBool True]"]
    A [rule_format, of 1 "PList [PInt 0, PInt 0, PInt 0]"] E
  have "(PTuple [PBool True, PBool False, PBool True] = PList [PInt 0, PInt 0, PInt 0]) = (0 < myfaults (fst C ! 0))"
    "(PList [PInt 0, PInt 0, PInt 0] = PList [PInt 0, PInt 0, PInt 0]) = (0 < myfaults (fst C ! 1))"
    "errors (snd C) = errors (astar_init race_sim) + sum_list (map myfaults (fst C))"
    by simp_all
  with r l p show ?thesis unfolding C_def by blast
qed

section \<open>Lemmas: a lock keeps the counter exact\<close>

lemma rstep_counter:
  assumes "pc_ok (kind_of c) (pc t)" and "kind_of c \<noteq> KTestWrite" and "store_ok t s"
    and "rstep B c t s = (t', s')"
  shows "store_ok t' s' \<and> errors s' + pend t' + myfaults t = errors s + pend t + myfaults t' \<and>
         io_faults (io s') + myfaults t = io_faults (io s) + myfaults t'"
  using assms
  by (cases "pc t")
     (auto simp: rstep_def store_ok_def pend_def pc_ok_def Let_def
        split: prod.splits option.splits sum.splits if_splits ckind.splits)

lemma rstep_errors:
  "rstep B c t s = (t', s') \<Longrightarrow> errors s' \<noteq> errors s \<Longrightarrow> is_store (pc t)"
  by (cases "pc t")
     (auto simp: rstep_def Let_def split: prod.splits option.splits sum.splits if_splits ckind.splits)

lemma store_held:
  "lk \<noteq> NoLock \<Longrightarrow> is_store p \<Longrightarrow> holds lk p"
  by (cases lk; cases p) (simp_all add: holds_def)

lemma kinv_init:
  "kinv cs (errors s0) (io_faults (io s0)) (cinit cs s0)"
  by (simp add: kinv_def cinit_def rstart_def store_ok_def pend_def pc_ok_def comp_def)

lemma kinv_step:
  assumes "cstep lk B cs c c'" and "lk \<noteq> NoLock" and "kinv cs e0 f0 c" and "TestWrite8 \<notin> set cs"
  shows "kinv cs e0 f0 c'"
  using assms(1)
proof (rule cstep_cases)
  fix i ts s t' s'
  assume eqs: "c = (ts, s)" "c' = (ts[i := t'], s')" and i: "i < length ts" "i < length cs"
    and ms: "may_step lk ts i" and r: "rstep B (cs ! i) (ts ! i) s = (t', s')"
  from assms(3) eqs have len: "length ts = length cs"
    and P: "\<forall>j<length ts. pc_ok (kind_of (cs ! j)) (pc (ts ! j)) \<and> store_ok (ts ! j) s"
    and E: "errors s + sum_list (map pend ts) = e0 + sum_list (map myfaults ts)"
    and F: "io_faults (io s) = f0 + sum_list (map myfaults ts)"
    by (simp_all add: kinv_def)
  from assms(4) nth_mem [OF i(2)] have ntw: "kind_of (cs ! i) \<noteq> KTestWrite"
    by (auto simp: kind_test_write)
  from P i have pi: "pc_ok (kind_of (cs ! i)) (pc (ts ! i))" and si: "store_ok (ts ! i) s" by simp_all
  from rstep_counter [OF pi ntw si r] have loc: "store_ok t' s'"
    and e: "errors s' + pend t' + myfaults (ts ! i) = errors s + pend (ts ! i) + myfaults t'"
    and f: "io_faults (io s') + myfaults (ts ! i) = io_faults (io s) + myfaults t'"
    by simp_all
  from rstep_pc_ok [OF pi, of B s] r have pi': "pc_ok (kind_of (cs ! i)) (pc t')" by simp
  have others: "store_ok (ts ! j) s'" if j: "j < length ts" "j \<noteq> i" for j
  proof (cases "errors s' = errors s")
    case True
    with P j show ?thesis by (simp add: store_ok_def)
  next
    case False
    from store_held [OF assms(2) rstep_errors [OF r False]]
    have "locked lk (pc (ts ! i))" by (simp add: holds_def)
    with ms j have "\<not> holds lk (pc (ts ! j))" by (auto simp: may_step_def list_all_iff)
    with store_held [OF assms(2), of "pc (ts ! j)"] show ?thesis by (auto simp: store_ok_def)
  qed
  have "errors s' + sum_list (map pend (ts[i := t'])) = e0 + sum_list (map myfaults (ts[i := t']))"
    using sum_list_map_update [OF i(1), of pend t'] sum_list_map_update [OF i(1), of myfaults t']
      E e by linarith
  moreover have "io_faults (io s') = f0 + sum_list (map myfaults (ts[i := t']))"
    using sum_list_map_update [OF i(1), of myfaults t'] F f by linarith
  ultimately show "kinv cs e0 f0 c'"
    using len P loc pi' others i unfolding eqs kinv_def by (auto simp: nth_list_update)
qed

lemma kinv_reach:
  assumes "(cstep lk B cs)\<^sup>*\<^sup>* (cinit cs s0) c" and "lk \<noteq> NoLock" and "TestWrite8 \<notin> set cs"
  shows "kinv cs (errors s0) (io_faults (io s0)) c"
  using assms(1)
proof (induction rule: rtranclp_induct)
  case base
  then show ?case by (rule kinv_init)
next
  case (step c c')
  then show ?case using kinv_step [OF _ assms(2) _ assms(3)] by blast
qed

text \<open>
  C21 (a lock keeps the counter exact). Under the lock of spec section 5 around the
  engine's transaction, as under a lock around the whole call, once any number of
  concurrent calls (all methods but \<open>test_write8\<close>) on any bus have returned, \<open>errors\<close>
  has grown by exactly the number of failed bus calls in the log: no increment is lost,
  since the load and the store of \<open>self.errors+=1\<close> both run under the lock.
\<close>

theorem locked_counter_exact:
  assumes "(cstep lk B cs)\<^sup>*\<^sup>* (cinit cs s0) (ts, s)" and "lk \<noteq> NoLock"
    and "TestWrite8 \<notin> set cs" and "list_all finished ts"
  shows "errors s + io_faults (io s0) = errors s0 + io_faults (io s)"
proof -
  from kinv_reach [OF assms(1-3)] have
    E: "errors s + sum_list (map pend ts) = errors s0 + sum_list (map myfaults ts)"
    and F: "io_faults (io s) = io_faults (io s0) + sum_list (map myfaults ts)"
    by (simp_all add: kinv_def)
  from pend_finished [OF assms(4)] E F show ?thesis by linarith
qed


theorem locked_counter_exact_witness:
  "(cstep EngineLock sim_bus [ReadButtons, ReadButtons])\<^sup>*\<^sup>*
     (cinit [ReadButtons, ReadButtons] (astar_init \<lparr>mem = [0, 0, 0, 1, 0, 1], ptr = 0, faults = [True, True]\<rparr>))
     (fst (csched EngineLock sim_bus [ReadButtons, ReadButtons]
        ([0, 0, 0, 0, 1, 1, 1, 1, 1, 0] @ replicate 12 0 @ replicate 12 1)
        (cinit [ReadButtons, ReadButtons] (astar_init \<lparr>mem = [0, 0, 0, 1, 0, 1], ptr = 0, faults = [True, True]\<rparr>))),
      snd (csched EngineLock sim_bus [ReadButtons, ReadButtons]
        ([0, 0, 0, 0, 1, 1, 1, 1, 1, 0] @ replicate 12 0 @ replicate 12 1)
        (cinit [ReadButtons, ReadButtons] (astar_init \<lparr>mem = [0, 0, 0, 1, 0, 1], ptr = 0, faults = [True, True]\<rparr>)))) \<and>
   EngineLock \<noteq> NoLock \<and> TestWrite8 \<notin> set [ReadButtons, ReadButtons] \<and>
   list_all finished (fst (csched EngineLock sim_bus [ReadButtons, ReadButtons]
        ([0, 0, 0, 0, 1, 1, 1, 1, 1, 0] @ replicate 12 0 @ replicate 12 1)
        (cinit [ReadButtons, ReadButtons] (astar_init \<lparr>mem = [0, 0, 0, 1, 0, 1], ptr = 0, faults = [True, True]\<rparr>)))) \<and>
   errors (snd (csched EngineLock sim_bus [ReadButtons, ReadButtons]
        ([0, 0, 0, 0, 1, 1, 1, 1, 1, 0] @ replicate 12 0 @ replicate 12 1)
        (cinit [ReadButtons, ReadButtons] (astar_init \<lparr>mem = [0, 0, 0, 1, 0, 1], ptr = 0, faults = [True, True]\<rparr>)))) +
     io_faults (io (astar_init \<lparr>mem = [0, 0, 0, 1, 0, 1], ptr = 0, faults = [True, True]\<rparr>)) =
   errors (astar_init \<lparr>mem = [0, 0, 0, 1, 0, 1], ptr = 0, faults = [True, True]\<rparr>) +
     io_faults (io (snd (csched EngineLock sim_bus [ReadButtons, ReadButtons]
        ([0, 0, 0, 0, 1, 1, 1, 1, 1, 0] @ replicate 12 0 @ replicate 12 1)
        (cinit [ReadButtons, ReadButtons] (astar_init \<lparr>mem = [0, 0, 0, 1, 0, 1], ptr = 0, faults = [True, True]\<rparr>)))))"
proof -
  define S where "S = astar_init \<lparr>mem = [0, 0, 0, 1, 0, 1], ptr = 0, faults = [True, True]\<rparr>"
  define C where "C = csched EngineLock sim_bus [ReadButtons, ReadButtons]
    ([0, 0, 0, 0, 1, 1, 1, 1, 1, 0] @ replicate 12 0 @ replicate 12 1) (cinit [ReadButtons, ReadButtons] S)"
  have r: "(cstep EngineLock sim_bus [ReadButtons, ReadButtons])\<^sup>*\<^sup>* (cinit [ReadButtons, ReadButtons] S) (fst C, snd C)"
    unfolding C_def prod.collapse by (rule csched_reach)
  have l: "EngineLock \<noteq> NoLock" "TestWrite8 \<notin> set [ReadButtons, ReadButtons]" by simp_all
  have f: "list_all finished (fst C)" unfolding C_def S_def by code_simp
  from locked_counter_exact [OF r l f]
  have "errors (snd C) + io_faults (io S) = errors S + io_faults (io (snd C))" .
  with r l f show ?thesis unfolding C_def S_def by blast
qed

end
