(* ===== verification/Spec2Isabelle.thy ===== *)
theory Spec2Isabelle
  imports Prelude Struct Bus Engine Endpoints Machine Interleave
begin

text \<open>
  Verification development of \<open>src/a_star.py\<close>, the class \<open>AStar\<close>: a client of the
  Pololu A-Star board (slave address 20 on I2C bus 1) that reads and writes the board's
  registers. The program has two parts. The transaction engine (\<open>read_unpack\<close>,
  \<open>write_pack\<close>) owns the bus object and the error state (\<open>errors\<close>, the cumulative
  count, and \<open>error\<close>, the flag of the last operation) and turns bus faults into that
  state instead of exceptions. The endpoint layer (\<open>leds\<close>, \<open>play_notes\<close>,
  \<open>motors\<close>, \<open>read_buttons\<close>, \<open>read_battery_millivolts\<close>, \<open>read_analog\<close>,
  \<open>read_encoders\<close> and the helpers \<open>test_read8\<close>, \<open>test_read32\<close>, \<open>test_write8\<close>)
  binds a register address, a \<open>struct\<close> format and a sentinel to the engine. Both call
  two libraries: \<open>struct\<close> (the wire layout) and \<open>smbus\<close> (the bus).

  \<^bold>\<open>Theories.\<close>
  \<^item> \<open>Prelude\<close>: the byte type, Python values (\<open>pyval\<close>: ints, bools, bytes, tuples,
    lists, None), the exceptions that can escape (\<open>exc\<close>), the outcome of a Python call
    (\<open>Return v s\<close> or \<open>Raise e s\<close>, both with the object's state, since an exception
    does not undo the attribute writes before it), and shared word and list lemmas.
  \<^item> \<open>Struct\<close>: \<open>struct.pack\<close>/\<open>unpack\<close>/\<open>calcsize\<close> in native mode on a
    little-endian host for the codes \<open>x c ? B h H s\<close> (\<open>parse_format\<close> with native
    alignment, \<open>pack_one\<close>/\<open>pack_items\<close>, \<open>unpack_one\<close>/\<open>unpack_items\<close>,
    \<open>struct_pack\<close>, \<open>struct_unpack\<close>); its lemmas: packed length is \<open>calcsize\<close>, pack
    raises exactly on unaccepted values and only \<open>struct.error\<close>, unpack after pack is
    the identity on in-range values, pack after unpack is the identity on formats without
    \<open>?\<close> and pads, unpacked values lie in their field's range.
  \<^item> \<open>Bus\<close>: the smbus interface as a record of three functions over a device state
    \<open>'d\<close> (each returns \<open>None\<close> when the call raises), and \<open>sim_bus\<close>, a simulated
    A-Star slave (register buffer, register pointer, fault script) used for scenarios.
  \<^item> \<open>Engine\<close>: the object's state \<open>'d astar\<close> (attributes \<open>bus\<close>, \<open>errors\<close>,
    \<open>error\<close>, plus a ghost log \<open>io\<close> of the external calls made, with outcome:
    \<open>EvWriteByte\<close>, \<open>EvSleep\<close>, \<open>EvReadByte\<close>, \<open>EvWriteBlock\<close>), \<open>astar_init\<close>
    (\<open>__init__\<close>), \<open>read_bytes\<close> (the byte-read comprehension), \<open>read_unpack\<close>
    (lines 15-46) and \<open>write_pack\<close> (lines 50-58), for every bus. Lemmas give each
    primitive's log, counters, flag and result on every branch (\<open>read_unpack_log\<close>,
    \<open>write_pack_log\<close>); \<open>accounts\<close> is the error-state contract of one transaction.
  \<^item> \<open>Endpoints\<close>: the ten methods of lines 62-145, the datatype \<open>call\<close> of them,
    \<open>astar_call\<close>, and \<open>astar_run\<close>, a caller's session (calls in order, stopped by
    the first escaping exception). Lemmas: every call but \<open>test_write8\<close> satisfies
    \<open>accounts\<close>; over sessions the counter is monotone, bounded and exact.
  \<^item> \<open>Machine\<close>: every method at the granularity at which CPython switches threads:
    \<open>kind_of\<close> reads a \<open>call\<close> as its literals (register, format, sentinel or values),
    \<open>rstep\<close> runs one statement of \<open>read_unpack\<close>, \<open>write_pack\<close>, the endpoint or the
    test helper (\<open>self.errors+=1\<close> is a load and a store; \<open>myfaults\<close> is a ghost count of
    the thread's failed bus calls), \<open>rfinish\<close> runs a thread alone to completion (total: a
    rank decreases), \<open>succ_pc\<close> is its control-flow graph and \<open>pc_ok\<close> the program of
    each kind of method. Lemma \<open>rfinish_refines\<close>: the machine run alone is
    \<open>astar_call\<close>, so the split into statements keeps each method's meaning.
  \<^item> \<open>Interleave\<close>: concurrent use (spec section 5). Threads interleaved by the relation
    \<open>cstep\<close> under no lock, the spec's lock around the engine's transaction, or a lock
    around the whole call; \<open>csched\<close> runs an explicit schedule and reaches its end state
    (\<open>csched_reach\<close>), so that a race is shown by one schedule evaluated in the kernel.
    Lemmas, by rule induction on the reflexive-transitive closure of \<open>cstep\<close>: the
    counting and flag invariant of the call lock (\<open>cinv\<close>) and the counting invariant of
    either lock (\<open>kinv\<close>: a thread about to store its increment of \<open>errors\<close> still holds
    the current value, since the load and the store both run under the lock).
  \<^item> this theory: the engine on the simulated slave (a fault-free read returns the
    buffer's bytes from the selected register on), what each read endpoint returns on any
    fault-free slave, and the end-to-end read-back.

  \<^bold>\<open>Properties\<close> (C1-C23, each after a text naming it): error accounting of reads and
  writes (C1, C9), the settling delay between select and reads on every path (C2), the
  endpoints' sentinel rule (C3), the serialisation round trip (C4), the error state over
  sessions (C5, C6, C12, C18), the write-then-read refinement on a register-file slave
  (C7), the result of a read on every branch (C8), read endpoints never raising and their
  value ranges (C10), the exceptions that escape despite the spec's "never raises": pack
  errors (C11, C13), non-ASCII notes (C14), the unguarded \<open>test_write8\<close> (C17), the
  note payload's truncation (C15), each read endpoint's result on a register-file slave
  (C16), and concurrency: a lock around the whole call makes concurrent calls keep the
  contract (C19); the spec's lock around the engine keeps the counter exact (C21) but not
  the flag (C20); no lock lets a thread read another's registers (C22) and lose a counter
  update (C23).

  \<^bold>\<open>Modelling choices.\<close> The flag \<open>self.error\<close> (0 or 1, only tested for truth) is a
  \<open>bool\<close>; Python integers are \<open>int\<close>, bytes \<open>8 word\<close>, 16-bit fields \<open>16 word\<close>
  read with \<open>uint\<close>/\<open>sint\<close>. The byte-read loop is structural recursion on the count
  (it always terminates; no fuel is needed). \<open>time.sleep(0.0002)\<close> is the event
  \<open>EvSleep 200\<close> (microseconds). Register addresses are bytes, as the bus sends them.

  \<^bold>\<open>Not modelled.\<close> Wall-clock time and the real bus driver (only its contract is
  modelled); thread switches inside a bus call, inside \<open>struct.pack\<close>/\<open>unpack\<close> or
  inside \<open>str.encode\<close> (each is one step: none of them touches an attribute of the
  object); \<open>struct\<close> format prefixes other than the default native mode (the source uses
  none).
\<close>

section \<open>The engine on the simulated slave\<close>

lemma sim_read_byte_ok:
  "faults d = [] \<Longrightarrow> read_byte sim_bus astar_addr d = (Some (mem_at (mem d) (ptr d)), d\<lparr>ptr := Suc (ptr d)\<rparr>)"
  by (simp add: sim_bus_def sim_read_byte_def sim_fault_def sim_addr_def astar_addr_def)

lemma read_bytes_Suc_Some:
  "read_byte B astar_addr (bus s) = (Some b, d) \<Longrightarrow>
   read_bytes B (Suc n) s =
     (map_option (Cons b) (fst (read_bytes B n (s\<lparr>bus := d, io := io s @ [EvReadByte astar_addr (Some b)]\<rparr>))),
      snd (read_bytes B n (s\<lparr>bus := d, io := io s @ [EvReadByte astar_addr (Some b)]\<rparr>)))"
  by (simp add: Let_def split: prod.split option.split)
lemma sim_read_bytes:
  "faults (bus s) = [] \<Longrightarrow>
   fst (read_bytes sim_bus n s) = Some (map (mem_at (mem (bus s))) [ptr (bus s)..<ptr (bus s) + n]) \<and>
   bus (snd (read_bytes sim_bus n s)) = (bus s)\<lparr>ptr := ptr (bus s) + n\<rparr>"
proof (induction n arbitrary: s)
  case 0
  then show ?case by simp
next
  case (Suc n)
  define b where "b = mem_at (mem (bus s)) (ptr (bus s))"
  define s1 where "s1 = s\<lparr>bus := (bus s)\<lparr>ptr := Suc (ptr (bus s))\<rparr>, io := io s @ [EvReadByte astar_addr (Some b)]\<rparr>"
  have rb: "read_byte sim_bus astar_addr (bus s) = (Some b, (bus s)\<lparr>ptr := Suc (ptr (bus s))\<rparr>)"
    unfolding b_def by (rule sim_read_byte_ok [OF Suc.prems])
  have f1: "faults (bus s1) = []" using Suc.prems by (simp add: s1_def)
  have m1: "mem (bus s1) = mem (bus s)" and p1: "ptr (bus s1) = Suc (ptr (bus s))" by (simp_all add: s1_def)
  from Suc.IH [OF f1] have
    ih1: "fst (read_bytes sim_bus n s1) = Some (map (mem_at (mem (bus s))) [Suc (ptr (bus s))..<Suc (ptr (bus s)) + n])"
    and ih2: "bus (snd (read_bytes sim_bus n s1)) = (bus s)\<lparr>ptr := Suc (ptr (bus s)) + n\<rparr>"
    unfolding m1 p1 by (simp_all add: s1_def)
  have eq: "read_bytes sim_bus (Suc n) s =
     (map_option (Cons b) (fst (read_bytes sim_bus n s1)), snd (read_bytes sim_bus n s1))"
    unfolding s1_def by (rule read_bytes_Suc_Some [OF rb])
  have u: "[ptr (bus s)..<ptr (bus s) + Suc n] = ptr (bus s) # [Suc (ptr (bus s))..<Suc (ptr (bus s)) + n]"
    by (simp add: upt_rec)
  show ?case unfolding eq u using ih1 ih2 by (simp del: upt_Suc add: b_def)
qed
lemma sim_write_byte_ok:
  "faults d = [] \<Longrightarrow> write_byte sim_bus astar_addr v d = (Some (), d\<lparr>ptr := unat v\<rparr>)"
  by (simp add: sim_bus_def sim_write_byte_def sim_fault_def sim_addr_def astar_addr_def)

lemma sim_write_block_ok:
  "faults d = [] \<Longrightarrow> data \<noteq> [] \<Longrightarrow> length data \<le> 32 \<Longrightarrow>
   write_i2c_block_data sim_bus astar_addr reg data d =
     (Some (), d\<lparr>mem := store (unat reg) data (mem d), ptr := unat reg + length data\<rparr>)"
  by (simp add: sim_bus_def sim_write_block_def sim_fault_def sim_addr_def astar_addr_def)

lemma map_mem_at_store:
  assumes "i + length bs \<le> length m"
  shows "map (mem_at (store i bs m)) [i..<i + length bs] = bs"
proof (rule nth_equalityI)
  show "length (map (mem_at (store i bs m)) [i..<i + length bs]) = length bs" by simp
  fix k assume "k < length (map (mem_at (store i bs m)) [i..<i + length bs])"
  then have k: "k < length bs" by simp
  then show "map (mem_at (store i bs m)) [i..<i + length bs] ! k = bs ! k"
    using mem_at_store [OF assms k] by simp
qed

lemma sim_read_unpack:
  assumes "faults (bus s) = []"
  shows "\<exists>s'. \<not> error s' \<and> errors s' = errors s \<and> bus s' = (bus s)\<lparr>ptr := unat a + n\<rparr> \<and>
    read_unpack sim_bus a n f s =
      (case struct_unpack f (map (mem_at (mem (bus s))) [unat a..<unat a + n]) of
         Inl e \<Rightarrow> Raise e s' | Inr vs \<Rightarrow> Return (PTuple vs) s')"
proof -
  define s3 where "s3 = s\<lparr>error := False, bus := (bus s)\<lparr>ptr := unat a\<rparr>,
      io := io s @ [EvWriteByte astar_addr a True, EvSleep 200]\<rparr>"
  have wb: "write_byte sim_bus astar_addr a (bus s) = (Some (), (bus s)\<lparr>ptr := unat a\<rparr>)"
    by (rule sim_write_byte_ok [OF assms])
  have ru: "read_unpack sim_bus a n f s =
     (case read_bytes sim_bus n s3 of
        (None, s4) \<Rightarrow> Return (PInt 0) (note_error s4)
      | (Some byte_list, s4) \<Rightarrow> (case struct_unpack f byte_list of
           Inl e \<Rightarrow> Raise e s4 | Inr vs \<Rightarrow> Return (PTuple vs) s4))"
    by (simp add: read_unpack_def wb s3_def Let_def)
  have f3: "faults (bus s3) = []" using assms by (simp add: s3_def)
  from sim_read_bytes [OF f3, of n] have
    r1: "fst (read_bytes sim_bus n s3) = Some (map (mem_at (mem (bus s))) [unat a..<unat a + n])"
    and r2: "bus (snd (read_bytes sim_bus n s3)) = (bus s)\<lparr>ptr := unat a + n\<rparr>"
    by (simp_all add: s3_def)
  obtain rb s4 where rd: "read_bytes sim_bus n s3 = (rb, s4)" by fastforce
  from read_bytes_log [OF rd] have "error s4 = error s3" and c4: "errors s4 = errors s" 
    by (simp_all add: s3_def)
  then have e4: "\<not> error s4" by (simp add: s3_def)
  from rd r1 r2 have "rb = Some (map (mem_at (mem (bus s))) [unat a..<unat a + n])"
    and "bus s4 = (bus s)\<lparr>ptr := unat a + n\<rparr>" by simp_all
  with ru rd e4 c4 show ?thesis by (intro exI [of _ s4]) simp
qed

text \<open>A read endpoint on a fault-free register-file slave: its registers, decoded.\<close>

lemma sim_checked_read:
  assumes "faults (bus s) = []"
  shows "\<exists>s'. \<not> error s' \<and> errors s' = errors s \<and> bus s' = (bus s)\<lparr>ptr := unat a + n\<rparr> \<and>
    checked_read sim_bus a n f sent s =
      (case struct_unpack f (map (mem_at (mem (bus s))) [unat a..<unat a + n]) of
         Inl e \<Rightarrow> Raise e s' | Inr vs \<Rightarrow> Return (PTuple vs) s')"
proof -
  from assms have "faults (bus (s\<lparr>error := False\<rparr>)) = []" by simp
  from sim_read_unpack [OF this, of a n f] obtain s' where
    "\<not> error s'" "errors s' = errors s" "bus s' = (bus s)\<lparr>ptr := unat a + n\<rparr>"
    and r: "read_unpack sim_bus a n f (s\<lparr>error := False\<rparr>) =
      (case struct_unpack f (map (mem_at (mem (bus s))) [unat a..<unat a + n]) of
         Inl e \<Rightarrow> Raise e s' | Inr vs \<Rightarrow> Return (PTuple vs) s')"
    by auto
  then show ?thesis
    by (intro exI [of _ s'])
       (simp add: checked_read_def split: sum.split outcome.split)
qed

section \<open>Cross-component properties\<close>

text \<open>
  C7 (write-then-read refinement). On a fault-free slave whose buffer covers registers
  6-9, \<open>motors(l, r)\<close> for speeds in the signed 16-bit range followed by a read
  transaction of 4 bytes at register 6 with format \<open>hh\<close> returns \<open>(l, r)\<close>: the engine,
  the codec and a register-file device compose to the identity, with no error flagged.
\<close>

theorem motors_read_back:
  assumes "faults (bus s) = []" and "10 \<le> length (mem (bus s))"
    and "- 32768 \<le> l" and "l \<le> 32767" and "- 32768 \<le> r" and "r \<le> 32767"
  shows "\<exists>s1 s2. motors sim_bus l r s = Return PNone s1 \<and> \<not> error s1 \<and>
           read_unpack sim_bus 6 4 ''hh'' s1 = Return (PTuple [PInt l, PInt r]) s2 \<and> \<not> error s2"
proof -
  have pf: "parse_format ''hh'' = Some [Fmth, Fmth]" by (rule catalog_formats(7))
  have fit: "list_all2 fits (value_items [Fmth, Fmth]) [PInt l, PInt r]"
    using assms(3-6) by (simp add: value_items_def)
  from struct_roundtrip [OF pf fit] obtain bs where
    p: "struct_pack ''hh'' [PInt l, PInt r] = Inr bs" and lb: "length bs = 4"
    and u: "struct_unpack ''hh'' bs = Inr [PInt l, PInt r]"
    by (auto simp: calcsize_def)
  define s1 where "s1 = s\<lparr>error := False, bus := (bus s)\<lparr>mem := store 6 bs (mem (bus s)), ptr := 10\<rparr>,
      io := io s @ [EvWriteBlock astar_addr 6 bs True]\<rparr>"
  have wb: "write_i2c_block_data sim_bus astar_addr 6 bs (bus s) =
      (Some (), (bus s)\<lparr>mem := store 6 bs (mem (bus s)), ptr := 10\<rparr>)"
  proof -
    from lb have "bs \<noteq> []" and "length bs \<le> 32" by auto
    from sim_write_block_ok [OF assms(1) this, of 6] lb show ?thesis by simp
  qed
  have m: "motors sim_bus l r s = Return PNone s1"
    by (simp add: motors_def write_pack_def p wb s1_def Let_def)
  have f1: "faults (bus s1) = []" using assms(1) by (simp add: s1_def)
  from sim_read_unpack [OF f1, of 6 4 "''hh''"] obtain s2 where
    e2: "\<not> error s2"
    and r: "read_unpack sim_bus 6 4 ''hh'' s1 =
      (case struct_unpack ''hh'' (map (mem_at (mem (bus s1))) [unat (6 :: byte)..<unat (6 :: byte) + 4]) of
         Inl e \<Rightarrow> Raise e s2 | Inr vs \<Rightarrow> Return (PTuple vs) s2)"
    by (elim exE conjE) (rule that)
  have "map (mem_at (mem (bus s1))) [unat (6 :: byte)..<unat (6 :: byte) + 4] = bs"
    using map_mem_at_store [of 6 bs "mem (bus s)"] lb assms(2) by (simp add: s1_def)
  with r u have "read_unpack sim_bus 6 4 ''hh'' s1 = Return (PTuple [PInt l, PInt r]) s2" by simp
  with m e2 show ?thesis by (intro exI [of _ s1] exI [of _ s2]) (simp add: s1_def)
qed

theorem motors_read_back_witness:
  "faults (bus (astar_init (sim_blank 12))) = [] \<and> 10 \<le> length (mem (bus (astar_init (sim_blank 12)))) \<and>
   - 32768 \<le> (150 :: int) \<and> (150 :: int) \<le> 32767 \<and> - 32768 \<le> (- 150 :: int) \<and> (- 150 :: int) \<le> 32767 \<and>
   (\<exists>s1 s2. motors sim_bus 150 (- 150) (astar_init (sim_blank 12)) = Return PNone s1 \<and> \<not> error s1 \<and>
      read_unpack sim_bus 6 4 ''hh'' s1 = Return (PTuple [PInt 150, PInt (- 150)]) s2 \<and> \<not> error s2)"
proof -
  have a: "faults (bus (astar_init (sim_blank 12))) = []" "10 \<le> length (mem (bus (astar_init (sim_blank 12))))"
    by (simp_all add: astar_init_def sim_blank_def)
  have b: "- 32768 \<le> (150 :: int)" "(150 :: int) \<le> 32767" "- 32768 \<le> (- 150 :: int)" "(- 150 :: int) \<le> 32767"
    by simp_all
  show ?thesis using a b motors_read_back [OF a b] by blast
qed

text \<open>
  C16 (read endpoints return their registers). On any fault-free register-file slave,
  whatever its registers hold, each read endpoint selects its register, reads its bytes and
  returns them decoded: \<open>read_buttons\<close> the truth of registers 3-5,
  \<open>read_battery_millivolts\<close> the unsigned little-endian word at 10-11, \<open>read_analog\<close>
  the six unsigned words at 12-23, \<open>read_encoders\<close> the two signed words at 39-42; the
  flag is clear, no error is counted and the slave's register pointer ends past the block.
\<close>

theorem read_endpoints_registers:
  assumes "faults (bus s) = []"
  shows "(\<exists>s'. read_buttons sim_bus s =
             Return (PTuple [PBool (mem_at (mem (bus s)) 3 \<noteq> 0), PBool (mem_at (mem (bus s)) 4 \<noteq> 0),
                             PBool (mem_at (mem (bus s)) 5 \<noteq> 0)]) s' \<and>
           \<not> error s' \<and> errors s' = errors s \<and> bus s' = (bus s)\<lparr>ptr := 6\<rparr>) \<and>
         (\<exists>s'. read_battery_millivolts sim_bus s =
             Return (PTuple [PInt (uint (word_cat (mem_at (mem (bus s)) 11) (mem_at (mem (bus s)) 10) :: 16 word))]) s' \<and>
           \<not> error s' \<and> errors s' = errors s \<and> bus s' = (bus s)\<lparr>ptr := 12\<rparr>) \<and>
         (\<exists>s'. read_analog sim_bus s =
             Return (PTuple (map (\<lambda>k. PInt (uint (word_cat (mem_at (mem (bus s)) (13 + 2 * k))
                                                  (mem_at (mem (bus s)) (12 + 2 * k)) :: 16 word))) [0..<6])) s' \<and>
           \<not> error s' \<and> errors s' = errors s \<and> bus s' = (bus s)\<lparr>ptr := 24\<rparr>) \<and>
         (\<exists>s'. read_encoders sim_bus s =
             Return (PTuple [PInt (sint (word_cat (mem_at (mem (bus s)) 40) (mem_at (mem (bus s)) 39) :: 16 word)),
                             PInt (sint (word_cat (mem_at (mem (bus s)) 42) (mem_at (mem (bus s)) 41) :: 16 word))]) s' \<and>
           \<not> error s' \<and> errors s' = errors s \<and> bus s' = (bus s)\<lparr>ptr := 43\<rparr>)"
proof (intro conjI)
  show "\<exists>s'. read_buttons sim_bus s =
      Return (PTuple [PBool (mem_at (mem (bus s)) 3 \<noteq> 0), PBool (mem_at (mem (bus s)) 4 \<noteq> 0),
                      PBool (mem_at (mem (bus s)) 5 \<noteq> 0)]) s' \<and>
      \<not> error s' \<and> errors s' = errors s \<and> bus s' = (bus s)\<lparr>ptr := 6\<rparr>"
    using sim_checked_read [OF assms, of 3 3 "''???''" "PList [PInt 0, PInt 0, PInt 0]"]
    by (auto simp: read_buttons_def struct_unpack_def catalog_formats)
  show "\<exists>s'. read_battery_millivolts sim_bus s =
      Return (PTuple [PInt (uint (word_cat (mem_at (mem (bus s)) 11) (mem_at (mem (bus s)) 10) :: 16 word))]) s' \<and>
      \<not> error s' \<and> errors s' = errors s \<and> bus s' = (bus s)\<lparr>ptr := 12\<rparr>"
    using sim_checked_read [OF assms, of 10 2 "''H''" "PList [PInt 0]"]
    by (auto simp: read_battery_millivolts_def struct_unpack_def catalog_formats)
  show "\<exists>s'. read_analog sim_bus s =
      Return (PTuple (map (\<lambda>k. PInt (uint (word_cat (mem_at (mem (bus s)) (13 + 2 * k))
                                           (mem_at (mem (bus s)) (12 + 2 * k)) :: 16 word))) [0..<6])) s' \<and>
      \<not> error s' \<and> errors s' = errors s \<and> bus s' = (bus s)\<lparr>ptr := 24\<rparr>"
    using sim_checked_read [OF assms, of 12 12 "''HHHHHH''" "PList [PInt 0, PInt 0, PInt 0, PInt 0, PInt 0, PInt 0]"]
    by (auto simp: read_analog_def struct_unpack_def catalog_formats upt_rec)
  show "\<exists>s'. read_encoders sim_bus s =
      Return (PTuple [PInt (sint (word_cat (mem_at (mem (bus s)) 40) (mem_at (mem (bus s)) 39) :: 16 word)),
                      PInt (sint (word_cat (mem_at (mem (bus s)) 42) (mem_at (mem (bus s)) 41) :: 16 word))]) s' \<and>
      \<not> error s' \<and> errors s' = errors s \<and> bus s' = (bus s)\<lparr>ptr := 43\<rparr>"
    using sim_checked_read [OF assms, of 39 4 "''hh''" "PList [PInt 0, PInt 0]"]
    by (auto simp: read_encoders_def struct_unpack_def catalog_formats)
qed

theorem read_endpoints_registers_witness:
  "faults (bus (astar_init regs_sim)) = [] \<and>
   (\<exists>s'. read_buttons sim_bus (astar_init regs_sim) = Return (PTuple [PBool True, PBool False, PBool True]) s' \<and>
      \<not> error s' \<and> errors s' = 0) \<and>
   (\<exists>s'. read_battery_millivolts sim_bus (astar_init regs_sim) = Return (PTuple [PInt 10000]) s' \<and>
      \<not> error s' \<and> errors s' = 0)"
proof -
  have f: "faults (bus (astar_init regs_sim)) = []" by (simp add: astar_init_def regs_sim_def)
  have m: "mem (bus (astar_init regs_sim)) = [0, 0, 0, 1, 0, 1, 0, 0, 0, 0, 0x10, 0x27]"
    "errors (astar_init regs_sim) = 0"
    by (simp_all add: astar_init_def regs_sim_def)
  have w: "uint (word_cat (0x27 :: byte) (0x10 :: byte) :: 16 word) = 10000"
    by (simp add: word_cat_bytes_16)
  from read_endpoints_registers [OF f] have
    "\<exists>s'. read_buttons sim_bus (astar_init regs_sim) =
       Return (PTuple [PBool (mem_at (mem (bus (astar_init regs_sim))) 3 \<noteq> 0),
                       PBool (mem_at (mem (bus (astar_init regs_sim))) 4 \<noteq> 0),
                       PBool (mem_at (mem (bus (astar_init regs_sim))) 5 \<noteq> 0)]) s' \<and>
       \<not> error s' \<and> errors s' = errors (astar_init regs_sim) \<and> bus s' = (bus (astar_init regs_sim))\<lparr>ptr := 6\<rparr>"
    and "\<exists>s'. read_battery_millivolts sim_bus (astar_init regs_sim) =
       Return (PTuple [PInt (uint (word_cat (mem_at (mem (bus (astar_init regs_sim))) 11)
                                   (mem_at (mem (bus (astar_init regs_sim))) 10) :: 16 word))]) s' \<and>
       \<not> error s' \<and> errors s' = errors (astar_init regs_sim) \<and> bus s' = (bus (astar_init regs_sim))\<lparr>ptr := 12\<rparr>"
    by blast+
  with f m w show ?thesis by (auto simp: mem_at_def)
qed

end
